theory Spec2Isabelle
  imports Main "HOL-Library.Word"
begin

section \<open>Market history plugin: data model\<close>

text \<open>
  The embedding follows \<^verbatim>\<open>libraries/plugins/market_history/market_history_plugin.cpp\<close>.
  The plugin's header, the chain's asset and price types and the \<^verbatim>\<open>fc\<close> time types
  are declared elsewhere; what the plugin needs of them is modelled from the specification
  and marked as such.
\<close>

text \<open>Modelled from the spec: asset identifiers are ordered identifiers, share amounts
  are integers (\<^verbatim>\<open>asset_id_type\<close>, \<^verbatim>\<open>share_type\<close> are declared outside the sources).\<close>

type_synonym asset_id_type = nat
type_synonym share_type = int

text \<open>\<^verbatim>\<open>uint32_t\<close> bucket sizes and history depth; \<^verbatim>\<open>fc::time_point_sec\<close> as its
  count of seconds since the epoch.\<close>

type_synonym uint32_t = "32 word"
type_synonym time_point_sec = "32 word"

record asset =
  amount :: share_type
  asset_id :: asset_id_type

record price =
  base :: asset
  quote :: asset

text \<open>Modelled from the spec: \<^verbatim>\<open>asset / asset\<close> forms the price as the pair of the two
  amounts (section 4.2: the ratio is retained as a base/quote amount pair).\<close>

definition asset_div :: "asset \<Rightarrow> asset \<Rightarrow> price" where
  "asset_div b q = \<lparr>base = b, quote = q\<rparr>"

text \<open>Modelled from the spec: prices are compared by cross-multiplication of the
  amounts (\<^verbatim>\<open>operator<\<close> and \<^verbatim>\<open>operator>\<close> on \<^verbatim>\<open>price\<close>).\<close>

definition price_less :: "price \<Rightarrow> price \<Rightarrow> bool" where
  "price_less a b \<longleftrightarrow> amount (base a) * amount (quote b) < amount (base b) * amount (quote a)"

definition price_greater :: "price \<Rightarrow> price \<Rightarrow> bool" where
  "price_greater a b \<longleftrightarrow> price_less b a"

definition price_less_eq :: "price \<Rightarrow> price \<Rightarrow> bool" where
  "price_less_eq a b \<longleftrightarrow> amount (base a) * amount (quote b) \<le> amount (base b) * amount (quote a)"

definition price_greater_eq :: "price \<Rightarrow> price \<Rightarrow> bool" where
  "price_greater_eq a b \<longleftrightarrow> price_less_eq b a"

text \<open>Modelled from the spec: \<^verbatim>\<open>bucket_key\<close>, ordered lexicographically by
  (base, quote, seconds, open) (section 3). Its fields \<^verbatim>\<open>base\<close>, \<^verbatim>\<open>quote\<close> and
  \<^verbatim>\<open>open\<close> are written \<open>kbase\<close>, \<open>kquote\<close> and \<open>kopen\<close>, apart from the fields
  of a price.\<close>

record bucket_key =
  kbase :: asset_id_type
  kquote :: asset_id_type
  seconds :: uint32_t
  kopen :: time_point_sec

definition key_less :: "bucket_key \<Rightarrow> bucket_key \<Rightarrow> bool" where
  "key_less a b \<longleftrightarrow>
     kbase a < kbase b \<or> (kbase a = kbase b \<and>
       (kquote a < kquote b \<or> (kquote a = kquote b \<and>
         (seconds a < seconds b \<or> (seconds a = seconds b \<and> kopen a < kopen b)))))"

text \<open>Modelled from the spec: \<^verbatim>\<open>bucket_object\<close> (section 3), a fresh object having all
  amounts zero, and its \<^verbatim>\<open>high()\<close> and \<^verbatim>\<open>low()\<close> prices rebuilt from the stored
  amounts.\<close>

record bucket_object =
  key :: bucket_key
  high_base :: share_type
  high_quote :: share_type
  low_base :: share_type
  low_quote :: share_type
  open_base :: share_type
  open_quote :: share_type
  close_base :: share_type
  close_quote :: share_type
  base_volume :: share_type
  quote_volume :: share_type

definition fresh_bucket :: bucket_object where
  "fresh_bucket =
     \<lparr>key = \<lparr>kbase = 0, kquote = 0, seconds = 0, kopen = 0\<rparr>,
      high_base = 0, high_quote = 0, low_base = 0, low_quote = 0,
      open_base = 0, open_quote = 0, close_base = 0, close_quote = 0,
      base_volume = 0, quote_volume = 0\<rparr>"

definition high :: "bucket_object \<Rightarrow> price" where
  "high b = asset_div \<lparr>amount = high_base b, asset_id = kbase (key b)\<rparr>
                      \<lparr>amount = high_quote b, asset_id = kquote (key b)\<rparr>"

definition low :: "bucket_object \<Rightarrow> price" where
  "low b = asset_div \<lparr>amount = low_base b, asset_id = kbase (key b)\<rparr>
                     \<lparr>amount = low_quote b, asset_id = kquote (key b)\<rparr>"

definition open_price :: "bucket_object \<Rightarrow> price" where
  "open_price b = asset_div \<lparr>amount = open_base b, asset_id = kbase (key b)\<rparr>
                            \<lparr>amount = open_quote b, asset_id = kquote (key b)\<rparr>"

definition close_price :: "bucket_object \<Rightarrow> price" where
  "close_price b = asset_div \<lparr>amount = close_base b, asset_id = kbase (key b)\<rparr>
                             \<lparr>amount = close_quote b, asset_id = kquote (key b)\<rparr>"

text \<open>The invariant of section 3 on a bucket: the high is at least the open, the close
  and the low; the low is at most the open, the close and the high.\<close>

definition ohlc_invariant :: "bucket_object \<Rightarrow> bool" where
  "ohlc_invariant b \<longleftrightarrow>
     price_greater_eq (high b) (open_price b) \<and> price_greater_eq (high b) (close_price b) \<and>
     price_greater_eq (high b) (low b) \<and>
     price_less_eq (low b) (open_price b) \<and> price_less_eq (low b) (close_price b) \<and>
     price_less_eq (low b) (high b)"

text \<open>The amounts of a trade are quantities of an asset, none negative; so are the
  amounts a bucket has taken from trades.\<close>

definition amounts_nonneg :: "price \<Rightarrow> bool" where
  "amounts_nonneg pr \<longleftrightarrow> 0 \<le> amount (base pr) \<and> 0 \<le> amount (quote pr)"

definition bucket_nonneg :: "bucket_object \<Rightarrow> bool" where
  "bucket_nonneg b \<longleftrightarrow>
     amounts_nonneg (high b) \<and> amounts_nonneg (low b) \<and>
     amounts_nonneg (open_price b) \<and> amounts_nonneg (close_price b)"

subsection \<open>The bucket index\<close>

text \<open>
  The \<^verbatim>\<open>by_key\<close> index of \<^verbatim>\<open>bucket_index\<close> is an ordered, unique index on the key. It is
  modelled as the list of its objects in index order; \<open>bucket_index_ok\<close> says that a list
  is such an index.
\<close>

type_synonym bucket_index = "bucket_object list"

definition bucket_index_ok :: "bucket_index \<Rightarrow> bool" where
  "bucket_index_ok s \<longleftrightarrow> sorted_wrt key_less (map key s)"

text \<open>\<^verbatim>\<open>by_key_idx.find( key )\<close>\<close>

fun find_bucket :: "bucket_index \<Rightarrow> bucket_key \<Rightarrow> bucket_object option" where
  "find_bucket [] k = None"
| "find_bucket (b # bs) k = (if key b = k then Some b else find_bucket bs k)"

text \<open>\<^verbatim>\<open>db.create<bucket_object>\<close>: the new object enters the index at its place in
  the key order.\<close>

fun create_bucket :: "bucket_object \<Rightarrow> bucket_index \<Rightarrow> bucket_index" where
  "create_bucket x [] = [x]"
| "create_bucket x (b # bs) =
     (if key_less (key x) (key b) then x # b # bs else b # create_bucket x bs)"

text \<open>\<^verbatim>\<open>db.modify( *itr, f )\<close> for the object found under key \<open>k\<close>.\<close>

fun modify_bucket :: "bucket_key \<Rightarrow> (bucket_object \<Rightarrow> bucket_object) \<Rightarrow> bucket_index \<Rightarrow> bucket_index" where
  "modify_bucket k f [] = []"
| "modify_bucket k f (b # bs) =
     (if key b = k then f b # bs else b # modify_bucket k f bs)"

section \<open>The fill order visitor\<close>

text \<open>Of a \<^verbatim>\<open>fill_order_operation\<close> the visitor reads \<^verbatim>\<open>pays\<close> and \<^verbatim>\<open>receives\<close> only.\<close>

record fill_order_operation =
  pays :: asset
  receives :: asset

text \<open>The operation variant: the fill order, the two witness operations of
  \<^verbatim>\<open>witness_evaluator.hpp\<close>, and every other operation type, by its tag.\<close>

datatype operation =
    Fill_order fill_order_operation
  | Witness_create
  | Witness_withdraw_pay
  | Other_operation nat

datatype error = Division_by_zero

text \<open>The plugin's state: \<^verbatim>\<open>_tracked_buckets\<close> (a \<^verbatim>\<open>flat_set\<close>, here in its iteration
  order) and \<^verbatim>\<open>_maximum_history_per_bucket_size\<close>.\<close>

record plugin =
  tracked_buckets :: "uint32_t list"
  max_history :: uint32_t

text \<open>The body of \<^verbatim>\<open>db.create\<close>'s initialiser (lines 108--120).\<close>

definition new_bucket :: "bucket_key \<Rightarrow> price \<Rightarrow> bucket_object \<Rightarrow> bucket_object" where
  "new_bucket k trade_price b =
     (let b = b\<lparr>key := k\<rparr>;
          b = b\<lparr>quote_volume := quote_volume b + amount (quote trade_price)\<rparr>;
          b = b\<lparr>base_volume := base_volume b + amount (base trade_price)\<rparr>;
          b = b\<lparr>open_base := amount (base trade_price)\<rparr>;
          b = b\<lparr>open_quote := amount (quote trade_price)\<rparr>;
          b = b\<lparr>close_base := amount (base trade_price)\<rparr>;
          b = b\<lparr>close_quote := amount (quote trade_price)\<rparr>;
          b = b\<lparr>high_base := close_base b\<rparr>;
          b = b\<lparr>high_quote := close_quote b\<rparr>;
          b = b\<lparr>low_base := close_base b\<rparr>;
          b = b\<lparr>low_quote := close_quote b\<rparr>
      in b)"

text \<open>The body of \<^verbatim>\<open>db.modify\<close>'s update (lines 126--141).\<close>

definition update_bucket :: "price \<Rightarrow> bucket_object \<Rightarrow> bucket_object" where
  "update_bucket trade_price b =
     (let b = b\<lparr>base_volume := base_volume b + amount (base trade_price)\<rparr>;
          b = b\<lparr>quote_volume := quote_volume b + amount (quote trade_price)\<rparr>;
          b = b\<lparr>close_base := amount (base trade_price)\<rparr>;
          b = b\<lparr>close_quote := amount (quote trade_price)\<rparr>;
          b = (if price_less (high b) trade_price
               then b\<lparr>high_base := close_base b, high_quote := close_quote b\<rparr> else b);
          b = (if price_greater (low b) trade_price
               then b\<lparr>low_base := close_base b, low_quote := close_quote b\<rparr> else b)
      in b)"

text \<open>Lines 104--143: look the key up, create the bucket or update it.\<close>

definition record_trade :: "bucket_key \<Rightarrow> price \<Rightarrow> bucket_index \<Rightarrow> bucket_index" where
  "record_trade k trade_price s =
     (case find_bucket s k of
        None \<Rightarrow> create_bucket (new_bucket k trade_price fresh_bucket) s
      | Some b \<Rightarrow> modify_bucket k (update_bucket trade_price) s)"

text \<open>Lines 150--160: the loop that removes objects from the iterator on, while they
  belong to the key's market and bucket size and open before the cutoff.\<close>

fun remove_loop :: "bucket_key \<Rightarrow> uint32_t \<Rightarrow> time_point_sec \<Rightarrow> bucket_index \<Rightarrow> bucket_index" where
  "remove_loop k bucket cutoff [] = []"
| "remove_loop k bucket cutoff (b # bs) =
     (if kbase (key b) = kbase k \<and> kquote (key b) = kquote k \<and>
         seconds (key b) = bucket \<and> kopen (key b) < cutoff
      then remove_loop k bucket cutoff bs
      else b # bs)"

text \<open>Lines 148--160: \<^verbatim>\<open>lower_bound( key )\<close> passes the objects whose key is less than
  \<open>k\<close>; the loop starts at the first other one.\<close>

fun remove_old_buckets :: "bucket_key \<Rightarrow> uint32_t \<Rightarrow> time_point_sec \<Rightarrow> bucket_index \<Rightarrow> bucket_index" where
  "remove_old_buckets k bucket cutoff [] = []"
| "remove_old_buckets k bucket cutoff (b # bs) =
     (if key_less (key b) k then b # remove_old_buckets k bucket cutoff bs
      else remove_loop k bucket cutoff (b # bs))"

text \<open>Line 83: the cutoff is the epoch plus \<^verbatim>\<open>bucket * max_history\<close> seconds, a
  product of two \<^verbatim>\<open>uint32_t\<close>.\<close>

definition cutoff_time :: "uint32_t \<Rightarrow> uint32_t \<Rightarrow> time_point_sec" where
  "cutoff_time bucket max_hist = 0 + bucket * max_hist"

text \<open>Line 102: the opening time of the bucket that holds \<open>now\<close>.\<close>

definition bucket_open :: "time_point_sec \<Rightarrow> uint32_t \<Rightarrow> time_point_sec" where
  "bucket_open now secs = 0 + (now div secs) * secs"

text \<open>One turn of the loop over the tracked buckets (lines 83--161). The division of
  line 102 by a bucket size of zero is the error \<open>Division_by_zero\<close>.\<close>

definition process_bucket ::
  "uint32_t \<Rightarrow> time_point_sec \<Rightarrow> fill_order_operation \<Rightarrow> uint32_t \<Rightarrow> bucket_index \<Rightarrow> error + bucket_index" where
  "process_bucket max_hist now o_op bucket s =
     (let cutoff = cutoff_time bucket max_hist;
          k = \<lparr>kbase = asset_id (pays o_op), kquote = asset_id (receives o_op),
               seconds = 0, kopen = 0\<rparr>
      in if kbase k > kquote k then Inr s
         else
           let trade_price = asset_div (pays o_op) (receives o_op);
               k = k\<lparr>seconds := bucket\<rparr>
           in if seconds k = 0 then Inl Division_by_zero
              else
                let k = k\<lparr>kopen := bucket_open now (seconds k)\<rparr>;
                    s = record_trade k trade_price s
                in if max_hist \<noteq> 0
                   then Inr (remove_old_buckets (k\<lparr>kopen := 0\<rparr>) bucket cutoff s)
                   else Inr s)"

text \<open>The loop over the tracked buckets (line 81).\<close>

fun process_buckets ::
  "uint32_t \<Rightarrow> time_point_sec \<Rightarrow> fill_order_operation \<Rightarrow> uint32_t list \<Rightarrow> bucket_index \<Rightarrow> error + bucket_index" where
  "process_buckets max_hist now o_op [] s = Inr s"
| "process_buckets max_hist now o_op (bucket # buckets) s =
     (case process_bucket max_hist now o_op bucket s of
        Inl e \<Rightarrow> Inl e
      | Inr s' \<Rightarrow> process_buckets max_hist now o_op buckets s')"

text \<open>\<^verbatim>\<open>operation_process_fill_order\<close>: the visitor's two call operators.\<close>

fun operation_process_fill_order ::
  "plugin \<Rightarrow> time_point_sec \<Rightarrow> operation \<Rightarrow> bucket_index \<Rightarrow> error + bucket_index" where
  "operation_process_fill_order p now (Fill_order o_op) s =
     process_buckets (max_history p) now o_op (tracked_buckets p) s"
| "operation_process_fill_order p now _ s = Inr s"

text \<open>The block as the callback sees it: its timestamp, and the operations the database
  applied in it.\<close>

record signed_block =
  timestamp :: time_point_sec
  applied_operations :: "operation list"

fun visit_all ::
  "plugin \<Rightarrow> time_point_sec \<Rightarrow> operation list \<Rightarrow> bucket_index \<Rightarrow> error + bucket_index" where
  "visit_all p now [] s = Inr s"
| "visit_all p now (op # ops) s =
     (case operation_process_fill_order p now op s of
        Inl e \<Rightarrow> Inl e
      | Inr s' \<Rightarrow> visit_all p now ops s')"

text \<open>\<^verbatim>\<open>market_history_plugin_impl::update_market_histories\<close> (lines 169--178).\<close>

definition update_market_histories ::
  "plugin \<Rightarrow> signed_block \<Rightarrow> bucket_index \<Rightarrow> error + bucket_index" where
  "update_market_histories p b s =
     (if max_history p = 0 then Inr s
      else if length (tracked_buckets p) = 0 then Inr s
      else visit_all p (timestamp b) (applied_operations b) s)"

text \<open>A chain of blocks applied in order, each to the index the previous one left.\<close>

fun apply_blocks ::
  "plugin \<Rightarrow> signed_block list \<Rightarrow> bucket_index \<Rightarrow> error + bucket_index" where
  "apply_blocks p [] s = Inr s"
| "apply_blocks p (b # bs) s =
     (case update_market_histories p b s of
        Inl e \<Rightarrow> Inl e
      | Inr s' \<Rightarrow> apply_blocks p bs s')"

text \<open>Names for the visitor's expressions: the trade price of a fill (line 99), the key
  of its bucket (lines 86, 87, 101 and 102), and the operations whose fill amounts are
  non-negative.\<close>

definition trade_of :: "fill_order_operation \<Rightarrow> price" where
  "trade_of f = asset_div (pays f) (receives f)"

definition fill_amounts_ok :: "operation \<Rightarrow> bool" where
  "fill_amounts_ok op =
     (case op of Fill_order f \<Rightarrow> amounts_nonneg (trade_of f) | _ \<Rightarrow> True)"

definition bucket_key_of :: "fill_order_operation \<Rightarrow> time_point_sec \<Rightarrow> uint32_t \<Rightarrow> bucket_key" where
  "bucket_key_of f now bucket =
     \<lparr>kbase = asset_id (pays f), kquote = asset_id (receives f),
      seconds = bucket, kopen = bucket_open now bucket\<rparr>"

text \<open>What lines 104--143 do to the bucket under key \<open>k\<close>, as \<^verbatim>\<open>find\<close> shows it before
  and after: none is created from the trade, one is updated with it.\<close>

definition route_trade :: "bucket_key \<Rightarrow> bucket_object option \<Rightarrow> fill_order_operation \<Rightarrow> bucket_object option" where
  "route_trade k r f =
     Some (case r of None \<Rightarrow> new_bucket k (trade_of f) fresh_bucket
           | Some b \<Rightarrow> update_bucket (trade_of f) b)"

text \<open>The fills that a block at time \<open>now\<close> routes into the bucket of key \<open>k\<close>: those of
  the key's market whose bucket of the key's size opens when the key says; and the fills
  that a chain of blocks routes there, in the order of their application.\<close>

definition routes_to :: "bucket_key \<Rightarrow> time_point_sec \<Rightarrow> fill_order_operation \<Rightarrow> bool" where
  "routes_to k now f \<longleftrightarrow>
     asset_id (pays f) = kbase k \<and> asset_id (receives f) = kquote k \<and>
     bucket_open now (seconds k) = kopen k"

fun routed_fills :: "bucket_key \<Rightarrow> time_point_sec \<Rightarrow> operation list \<Rightarrow> fill_order_operation list" where
  "routed_fills k now [] = []"
| "routed_fills k now (Fill_order f # ops) =
     (if routes_to k now f then f # routed_fills k now ops else routed_fills k now ops)"
| "routed_fills k now (_ # ops) = routed_fills k now ops"


section \<open>Operations other than fills\<close>

text \<open>
  C9. An operation that is not a fill order, the witness creation and the witness pay
  withdrawal among them, leaves the bucket index as it was: the visitor returns the index
  unchanged, for every plugin configuration and every time.
\<close>

theorem other_operations_noop:
  "(\<forall>f. op \<noteq> Fill_order f) \<Longrightarrow> operation_process_fill_order p now op s = Inr s"
  by (cases op) simp_all

theorem other_operations_noop_witness:
  "(\<forall>f. Witness_withdraw_pay \<noteq> Fill_order f) \<and>
   operation_process_fill_order \<lparr>tracked_buckets = [60], max_history = 1000\<rparr> 1500000030
     Witness_withdraw_pay
     [\<lparr>key = \<lparr>kbase = 1, kquote = 2, seconds = 60, kopen = 60\<rparr>,
       high_base = 3, high_quote = 1, low_base = 1, low_quote = 1,
       open_base = 2, open_quote = 1, close_base = 1, close_quote = 1,
       base_volume = 6, quote_volume = 3\<rparr>]
   = Inr [\<lparr>key = \<lparr>kbase = 1, kquote = 2, seconds = 60, kopen = 60\<rparr>,
       high_base = 3, high_quote = 1, low_base = 1, low_quote = 1,
       open_base = 2, open_quote = 1, close_base = 1, close_quote = 1,
       base_volume = 6, quote_volume = 3\<rparr>]"
  using other_operations_noop [of Witness_withdraw_pay
      "\<lparr>tracked_buckets = [60], max_history = 1000\<rparr>" 1500000030
      "[\<lparr>key = \<lparr>kbase = 1, kquote = 2, seconds = 60, kopen = 60\<rparr>,
       high_base = 3, high_quote = 1, low_base = 1, low_quote = 1,
       open_base = 2, open_quote = 1, close_base = 1, close_quote = 1,
       base_volume = 6, quote_volume = 3\<rparr>]"]
  by simp

section \<open>Facts about the index and the bucket arithmetic\<close>


lemma find_create:
  "find_bucket s k = None \<Longrightarrow> key x = k \<Longrightarrow> find_bucket (create_bucket x s) k = Some x"
  by (induction s) (auto split: if_splits)

lemma set_create: "set (create_bucket x s) = insert x (set s)"
  by (induction s) auto

lemma find_modify:
  "find_bucket s k = Some b \<Longrightarrow> key (f b) = k \<Longrightarrow> find_bucket (modify_bucket k f s) k = Some (f b)"
  by (induction s) (auto split: if_splits)

lemma key_update_bucket: "key (update_bucket tp b) = key b"
  by (simp add: update_bucket_def Let_def)

lemma key_new_bucket: "key (new_bucket k tp b) = k"
  by (simp add: new_bucket_def Let_def)

lemma find_bucket_key: "find_bucket s k = Some b \<Longrightarrow> key b = k"
  by (induction s) (auto split: if_splits)

lemma process_bucket_accepted:
  "asset_id (pays f) \<le> asset_id (receives f) \<Longrightarrow> bucket \<noteq> 0 \<Longrightarrow>
   process_bucket max_hist now f bucket s =
     Inr (if max_hist \<noteq> 0
          then remove_old_buckets ((bucket_key_of f now bucket)\<lparr>kopen := 0\<rparr>) bucket
                 (cutoff_time bucket max_hist)
                 (record_trade (bucket_key_of f now bucket) (trade_of f) s)
          else record_trade (bucket_key_of f now bucket) (trade_of f) s)"
  by (simp add: process_bucket_def Let_def bucket_key_of_def trade_of_def)

lemma new_bucket_fresh:
  "new_bucket k tp fresh_bucket =
     \<lparr>key = k, high_base = amount (base tp), high_quote = amount (quote tp),
      low_base = amount (base tp), low_quote = amount (quote tp),
      open_base = amount (base tp), open_quote = amount (quote tp),
      close_base = amount (base tp), close_quote = amount (quote tp),
      base_volume = amount (base tp), quote_volume = amount (quote tp)\<rparr>"
  by (simp add: new_bucket_def fresh_bucket_def Let_def)

lemma find_bucket_None_iff: "find_bucket s k = None \<longleftrightarrow> k \<notin> key ` set s"
  by (induction s) auto

lemma map_key_modify:
  "(\<And>b. key (f b) = key b) \<Longrightarrow> map key (modify_bucket k f s) = map key s"
  by (induction s) simp_all

lemma keys_record_trade: "key ` set (record_trade k tp s) = insert k (key ` set s)"
proof (cases "find_bucket s k")
  case None
  then show ?thesis
    by (simp add: record_trade_def set_create key_new_bucket)
next
  case (Some b)
  then have "k \<in> key ` set s"
    using find_bucket_None_iff [of s k] by simp
  moreover have "map key (record_trade k tp s) = map key s"
    using Some by (simp add: record_trade_def map_key_modify key_update_bucket)
  then have "set (map key (record_trade k tp s)) = set (map key s)" by simp
  ultimately show ?thesis by (simp only: set_map) blast
qed

lemma find_record_trade:
  "find_bucket (record_trade k tp s) k =
     Some (case find_bucket s k of None \<Rightarrow> new_bucket k tp fresh_bucket
           | Some b \<Rightarrow> update_bucket tp b)"
proof (cases "find_bucket s k")
  case None
  then show ?thesis
    by (simp add: record_trade_def find_create key_new_bucket)
next
  case (Some b)
  then have "key b = k" by (rule find_bucket_key)
  with Some show ?thesis
    by (simp add: record_trade_def find_modify key_update_bucket)
qed





section \<open>Updating a bucket\<close>

lemma ohlc_example: "update_market_histories \<lparr>tracked_buckets = [60], max_history = 1000\<rparr>
     \<lparr>timestamp = 1500000030, applied_operations =
        [Fill_order \<lparr>pays = \<lparr>amount = 2, asset_id = 1\<rparr>, receives = \<lparr>amount = 1, asset_id = 2\<rparr>\<rparr>,
         Fill_order \<lparr>pays = \<lparr>amount = 3, asset_id = 1\<rparr>, receives = \<lparr>amount = 1, asset_id = 2\<rparr>\<rparr>,
         Fill_order \<lparr>pays = \<lparr>amount = 1, asset_id = 1\<rparr>, receives = \<lparr>amount = 1, asset_id = 2\<rparr>\<rparr>,
         Fill_order \<lparr>pays = \<lparr>amount = 5, asset_id = 1\<rparr>, receives = \<lparr>amount = 2, asset_id = 2\<rparr>\<rparr>]\<rparr> []
   = Inr [\<lparr>key = \<lparr>kbase = 1, kquote = 2, seconds = 60, kopen = 1500000000\<rparr>,
             high_base = 3, high_quote = 1, low_base = 1, low_quote = 1,
             open_base = 2, open_quote = 1, close_base = 5, close_quote = 2,
             base_volume = 11, quote_volume = 5\<rparr>]"
  by (simp add: update_market_histories_def process_bucket_def Let_def bucket_open_def asset_div_def record_trade_def
      new_bucket_fresh cutoff_time_def key_less_def update_bucket_def price_less_def price_greater_def high_def low_def)

text \<open>
  C4. For an accepted fill whose slot already holds an object, the visitor updates that
  object in place: the close becomes the trade price, the trade's base and quote amounts
  are added to the volumes, the high is replaced exactly when the trade price is strictly
  greater than \<open>high()\<close> by cross-multiplication, the low exactly when it is strictly
  less than \<open>low()\<close>, the open and the key stay, and no object enters or leaves the
  index in this step. Last conjunct: a block with trades at prices 2/1, 3/1, 1/1 and 5/2
  (that is 2.5) for one market leaves one bucket with open 2/1, close 5/2, high 3/1 and
  low 1/1.
\<close>

theorem existing_bucket_updated:
  assumes "asset_id (pays f) \<le> asset_id (receives f)" and "bucket \<noteq> 0"
    and "find_bucket s (bucket_key_of f now bucket) = Some b"
  shows "process_bucket max_hist now f bucket s =
       Inr (if max_hist \<noteq> 0
            then remove_old_buckets ((bucket_key_of f now bucket)\<lparr>kopen := 0\<rparr>) bucket
                   (cutoff_time bucket max_hist)
                   (record_trade (bucket_key_of f now bucket) (trade_of f) s)
            else record_trade (bucket_key_of f now bucket) (trade_of f) s) \<and>
     find_bucket (record_trade (bucket_key_of f now bucket) (trade_of f) s)
         (bucket_key_of f now bucket) = Some (update_bucket (trade_of f) b) \<and>
     map key (record_trade (bucket_key_of f now bucket) (trade_of f) s) = map key s \<and>
     key (update_bucket (trade_of f) b) = key b \<and>
     close_base (update_bucket (trade_of f) b) = amount (pays f) \<and>
     close_quote (update_bucket (trade_of f) b) = amount (receives f) \<and>
     base_volume (update_bucket (trade_of f) b) = base_volume b + amount (pays f) \<and>
     quote_volume (update_bucket (trade_of f) b) = quote_volume b + amount (receives f) \<and>
     (high_base (update_bucket (trade_of f) b), high_quote (update_bucket (trade_of f) b)) =
       (if price_greater (trade_of f) (high b) then (amount (pays f), amount (receives f))
        else (high_base b, high_quote b)) \<and>
     (low_base (update_bucket (trade_of f) b), low_quote (update_bucket (trade_of f) b)) =
       (if price_less (trade_of f) (low b) then (amount (pays f), amount (receives f))
        else (low_base b, low_quote b)) \<and>
     open_base (update_bucket (trade_of f) b) = open_base b \<and>
     open_quote (update_bucket (trade_of f) b) = open_quote b \<and>
     update_market_histories \<lparr>tracked_buckets = [60], max_history = 1000\<rparr>
       \<lparr>timestamp = 1500000030, applied_operations =
         [Fill_order \<lparr>pays = \<lparr>amount = 2, asset_id = 1\<rparr>, receives = \<lparr>amount = 1, asset_id = 2\<rparr>\<rparr>,
          Fill_order \<lparr>pays = \<lparr>amount = 3, asset_id = 1\<rparr>, receives = \<lparr>amount = 1, asset_id = 2\<rparr>\<rparr>,
          Fill_order \<lparr>pays = \<lparr>amount = 1, asset_id = 1\<rparr>, receives = \<lparr>amount = 1, asset_id = 2\<rparr>\<rparr>,
          Fill_order \<lparr>pays = \<lparr>amount = 5, asset_id = 1\<rparr>, receives = \<lparr>amount = 2, asset_id = 2\<rparr>\<rparr>]\<rparr> []
       = Inr [\<lparr>key = \<lparr>kbase = 1, kquote = 2, seconds = 60, kopen = 1500000000\<rparr>,
               high_base = 3, high_quote = 1, low_base = 1, low_quote = 1,
               open_base = 2, open_quote = 1, close_base = 5, close_quote = 2,
               base_volume = 11, quote_volume = 5\<rparr>]"
proof -
  let ?k = "bucket_key_of f now bucket"
  have rt: "record_trade ?k (trade_of f) s = modify_bucket ?k (update_bucket (trade_of f)) s"
    using assms(3) by (simp add: record_trade_def)
  have kb: "key b = ?k" using assms(3) by (rule find_bucket_key)
  have "find_bucket (modify_bucket ?k (update_bucket (trade_of f)) s) ?k
          = Some (update_bucket (trade_of f) b)"
    using assms(3) kb by (simp add: find_modify key_update_bucket)
  then have fnd: "find_bucket (record_trade ?k (trade_of f) s) ?k = Some (update_bucket (trade_of f) b)"
    using rt by simp
  have keys: "map key (record_trade ?k (trade_of f) s) = map key s"
    unfolding rt by (induction s) (simp_all add: key_update_bucket)
  have fields: "close_base (update_bucket (trade_of f) b) = amount (pays f) \<and>
     close_quote (update_bucket (trade_of f) b) = amount (receives f) \<and>
     base_volume (update_bucket (trade_of f) b) = base_volume b + amount (pays f) \<and>
     quote_volume (update_bucket (trade_of f) b) = quote_volume b + amount (receives f) \<and>
     open_base (update_bucket (trade_of f) b) = open_base b \<and>
     open_quote (update_bucket (trade_of f) b) = open_quote b"
    by (simp add: update_bucket_def Let_def trade_of_def asset_div_def)
  have hi: "(high_base (update_bucket (trade_of f) b), high_quote (update_bucket (trade_of f) b)) =
       (if price_greater (trade_of f) (high b) then (amount (pays f), amount (receives f))
        else (high_base b, high_quote b))"
    by (simp add: update_bucket_def Let_def trade_of_def asset_div_def price_greater_def
        price_less_def high_def low_def)
  have lo: "(low_base (update_bucket (trade_of f) b), low_quote (update_bucket (trade_of f) b)) =
       (if price_less (trade_of f) (low b) then (amount (pays f), amount (receives f))
        else (low_base b, low_quote b))"
    by (simp add: update_bucket_def Let_def trade_of_def asset_div_def price_greater_def
        price_less_def high_def low_def)
  show ?thesis
    using fnd keys fields hi lo process_bucket_accepted [OF assms(1,2), of max_hist now s]
      ohlc_example
    by (simp only: key_update_bucket simp_thms)
qed

theorem existing_bucket_updated_witness:
  "asset_id (pays \<lparr>pays = \<lparr>amount = 5, asset_id = 1\<rparr>, receives = \<lparr>amount = 2, asset_id = 2\<rparr>\<rparr>)
     \<le> asset_id (receives \<lparr>pays = \<lparr>amount = 5, asset_id = 1\<rparr>, receives = \<lparr>amount = 2, asset_id = 2\<rparr>\<rparr>) \<and>
   (60 :: uint32_t) \<noteq> 0 \<and>
   find_bucket
     [\<lparr>key = \<lparr>kbase = 1, kquote = 2, seconds = 60, kopen = 1500000000\<rparr>,
       high_base = 3, high_quote = 1, low_base = 1, low_quote = 1,
       open_base = 2, open_quote = 1, close_base = 1, close_quote = 1,
       base_volume = 6, quote_volume = 3\<rparr>]
     (bucket_key_of \<lparr>pays = \<lparr>amount = 5, asset_id = 1\<rparr>, receives = \<lparr>amount = 2, asset_id = 2\<rparr>\<rparr> 1500000030 60)
     = Some \<lparr>key = \<lparr>kbase = 1, kquote = 2, seconds = 60, kopen = 1500000000\<rparr>,
       high_base = 3, high_quote = 1, low_base = 1, low_quote = 1,
       open_base = 2, open_quote = 1, close_base = 1, close_quote = 1,
       base_volume = 6, quote_volume = 3\<rparr> \<and>
   process_bucket 1000 1500000030
     \<lparr>pays = \<lparr>amount = 5, asset_id = 1\<rparr>, receives = \<lparr>amount = 2, asset_id = 2\<rparr>\<rparr> 60
     [\<lparr>key = \<lparr>kbase = 1, kquote = 2, seconds = 60, kopen = 1500000000\<rparr>,
       high_base = 3, high_quote = 1, low_base = 1, low_quote = 1,
       open_base = 2, open_quote = 1, close_base = 1, close_quote = 1,
       base_volume = 6, quote_volume = 3\<rparr>]
     = Inr [\<lparr>key = \<lparr>kbase = 1, kquote = 2, seconds = 60, kopen = 1500000000\<rparr>,
       high_base = 3, high_quote = 1, low_base = 1, low_quote = 1,
       open_base = 2, open_quote = 1, close_base = 5, close_quote = 2,
       base_volume = 11, quote_volume = 5\<rparr>]"
  using existing_bucket_updated [of
      "\<lparr>pays = \<lparr>amount = 5, asset_id = 1\<rparr>, receives = \<lparr>amount = 2, asset_id = 2\<rparr>\<rparr>" 60
      "[\<lparr>key = \<lparr>kbase = 1, kquote = 2, seconds = 60, kopen = 1500000000\<rparr>,
       high_base = 3, high_quote = 1, low_base = 1, low_quote = 1,
       open_base = 2, open_quote = 1, close_base = 1, close_quote = 1,
       base_volume = 6, quote_volume = 3\<rparr>]" 1500000030
      "\<lparr>key = \<lparr>kbase = 1, kquote = 2, seconds = 60, kopen = 1500000000\<rparr>,
       high_base = 3, high_quote = 1, low_base = 1, low_quote = 1,
       open_base = 2, open_quote = 1, close_base = 1, close_quote = 1,
       base_volume = 6, quote_volume = 3\<rparr>" 1000]
  by (simp add: bucket_key_of_def bucket_open_def trade_of_def asset_div_def record_trade_def
      cutoff_time_def key_less_def update_bucket_def price_less_def price_greater_def
      high_def low_def Let_def)

section \<open>The duplicate filter\<close>

lemma process_bucket_skipped:
  "asset_id (pays f) > asset_id (receives f) \<Longrightarrow> process_bucket max_hist now f bucket s = Inr s"
  by (simp add: process_bucket_def Let_def)

lemma process_buckets_skipped:
  "asset_id (pays f) > asset_id (receives f) \<Longrightarrow> process_buckets max_hist now f buckets s = Inr s"
  by (induction buckets) (simp_all add: process_bucket_skipped)

lemma visit_all_append:
  "visit_all p now (xs @ ys) s =
     (case visit_all p now xs s of Inl e \<Rightarrow> Inl e | Inr s' \<Rightarrow> visit_all p now ys s')"
  by (induction xs arbitrary: s) (simp_all split: sum.splits)

lemma visit_all_skipped:
  assumes "asset_id (pays A) > asset_id (receives A)"
  shows "visit_all p now (xs @ Fill_order A # ys) s = visit_all p now (xs @ ys) s"
  using assms by (simp add: visit_all_append process_buckets_skipped split: sum.splits)

text \<open>
  C3. Of the two fills of a matched trade, the one whose pays asset id is above its
  receives asset id is discarded: the visitor leaves the index as it was, in every turn of
  the bucket loop. A block holding both fills, in either order and among any other
  operations, therefore leaves the index that the block without the discarded fill leaves.
  The mirrored fill is accepted, and each tracked bucket size records it once (a bucket
  size of zero stops the visitor at the division).
\<close>

theorem symmetric_fill_discarded:
  assumes "asset_id (pays A) > asset_id (receives A)"
  shows "operation_process_fill_order p now (Fill_order A) s = Inr s \<and>
     update_market_histories p \<lparr>timestamp = now, applied_operations = [Fill_order A, Fill_order B]\<rparr> s =
       update_market_histories p \<lparr>timestamp = now, applied_operations = [Fill_order B]\<rparr> s \<and>
     update_market_histories p \<lparr>timestamp = now, applied_operations = [Fill_order B, Fill_order A]\<rparr> s =
       update_market_histories p \<lparr>timestamp = now, applied_operations = [Fill_order B]\<rparr> s \<and>
     update_market_histories p \<lparr>timestamp = now, applied_operations = xs @ Fill_order A # ys\<rparr> s =
       update_market_histories p \<lparr>timestamp = now, applied_operations = xs @ ys\<rparr> s \<and>
     process_bucket max_hist now A bucket s = Inr s \<and>
     process_bucket max_hist now \<lparr>pays = receives A, receives = pays A\<rparr> bucket s =
       (if bucket = 0 then Inl Division_by_zero
        else Inr (if max_hist \<noteq> 0
            then remove_old_buckets
                   ((bucket_key_of \<lparr>pays = receives A, receives = pays A\<rparr> now bucket)\<lparr>kopen := 0\<rparr>)
                   bucket (cutoff_time bucket max_hist)
                   (record_trade (bucket_key_of \<lparr>pays = receives A, receives = pays A\<rparr> now bucket)
                      (trade_of \<lparr>pays = receives A, receives = pays A\<rparr>) s)
            else record_trade (bucket_key_of \<lparr>pays = receives A, receives = pays A\<rparr> now bucket)
                      (trade_of \<lparr>pays = receives A, receives = pays A\<rparr>) s))"
proof -
  have a: "operation_process_fill_order p now (Fill_order A) s = Inr s"
    using assms by (simp add: process_buckets_skipped)
  have v: "visit_all p now (zs @ Fill_order A # ws) s = visit_all p now (zs @ ws) s" for zs ws
    using assms by (rule visit_all_skipped)
  have u: "update_market_histories p \<lparr>timestamp = now, applied_operations = zs @ Fill_order A # ws\<rparr> s =
       update_market_histories p \<lparr>timestamp = now, applied_operations = zs @ ws\<rparr> s" for zs ws
    using v [of zs ws] by (simp add: update_market_histories_def)
  have b: "process_bucket max_hist now \<lparr>pays = receives A, receives = pays A\<rparr> bucket s =
       (if bucket = 0 then Inl Division_by_zero
        else Inr (if max_hist \<noteq> 0
            then remove_old_buckets
                   ((bucket_key_of \<lparr>pays = receives A, receives = pays A\<rparr> now bucket)\<lparr>kopen := 0\<rparr>)
                   bucket (cutoff_time bucket max_hist)
                   (record_trade (bucket_key_of \<lparr>pays = receives A, receives = pays A\<rparr> now bucket)
                      (trade_of \<lparr>pays = receives A, receives = pays A\<rparr>) s)
            else record_trade (bucket_key_of \<lparr>pays = receives A, receives = pays A\<rparr> now bucket)
                      (trade_of \<lparr>pays = receives A, receives = pays A\<rparr>) s))"
    using assms by (simp add: process_bucket_def Let_def bucket_key_of_def trade_of_def)
  show ?thesis
    using a u [of "[]" "[Fill_order B]"] u [of "[Fill_order B]" "[]"] u [of xs ys] b
      process_bucket_skipped [OF assms, of max_hist now bucket s]
    by simp
qed

theorem symmetric_fill_discarded_witness:
  "asset_id (pays \<lparr>pays = \<lparr>amount = 7, asset_id = 2\<rparr>, receives = \<lparr>amount = 5, asset_id = 1\<rparr>\<rparr>)
     > asset_id (receives \<lparr>pays = \<lparr>amount = 7, asset_id = 2\<rparr>, receives = \<lparr>amount = 5, asset_id = 1\<rparr>\<rparr>) \<and>
   update_market_histories \<lparr>tracked_buckets = [60, 3600], max_history = 1000\<rparr>
     \<lparr>timestamp = 1500000030, applied_operations =
        [Fill_order \<lparr>pays = \<lparr>amount = 7, asset_id = 2\<rparr>, receives = \<lparr>amount = 5, asset_id = 1\<rparr>\<rparr>,
         Fill_order \<lparr>pays = \<lparr>amount = 5, asset_id = 1\<rparr>, receives = \<lparr>amount = 7, asset_id = 2\<rparr>\<rparr>]\<rparr> []
   = Inr [\<lparr>key = \<lparr>kbase = 1, kquote = 2, seconds = 60, kopen = 1500000000\<rparr>,
             high_base = 5, high_quote = 7, low_base = 5, low_quote = 7,
             open_base = 5, open_quote = 7, close_base = 5, close_quote = 7,
             base_volume = 5, quote_volume = 7\<rparr>,
          \<lparr>key = \<lparr>kbase = 1, kquote = 2, seconds = 3600, kopen = 1499997600\<rparr>,
             high_base = 5, high_quote = 7, low_base = 5, low_quote = 7,
             open_base = 5, open_quote = 7, close_base = 5, close_quote = 7,
             base_volume = 5, quote_volume = 7\<rparr>] \<and>
   update_market_histories \<lparr>tracked_buckets = [60, 3600], max_history = 1000\<rparr>
     \<lparr>timestamp = 1500000030, applied_operations =
        [Fill_order \<lparr>pays = \<lparr>amount = 5, asset_id = 1\<rparr>, receives = \<lparr>amount = 7, asset_id = 2\<rparr>\<rparr>]\<rparr> []
   = Inr [\<lparr>key = \<lparr>kbase = 1, kquote = 2, seconds = 60, kopen = 1500000000\<rparr>,
             high_base = 5, high_quote = 7, low_base = 5, low_quote = 7,
             open_base = 5, open_quote = 7, close_base = 5, close_quote = 7,
             base_volume = 5, quote_volume = 7\<rparr>,
          \<lparr>key = \<lparr>kbase = 1, kquote = 2, seconds = 3600, kopen = 1499997600\<rparr>,
             high_base = 5, high_quote = 7, low_base = 5, low_quote = 7,
             open_base = 5, open_quote = 7, close_base = 5, close_quote = 7,
             base_volume = 5, quote_volume = 7\<rparr>]"
  using symmetric_fill_discarded [of
     "\<lparr>pays = \<lparr>amount = 7, asset_id = 2\<rparr>, receives = \<lparr>amount = 5, asset_id = 1\<rparr>\<rparr>"
     "\<lparr>tracked_buckets = [60, 3600], max_history = 1000\<rparr>" 1500000030 "[]"
     "\<lparr>pays = \<lparr>amount = 5, asset_id = 1\<rparr>, receives = \<lparr>amount = 7, asset_id = 2\<rparr>\<rparr>"]
  by (simp add: update_market_histories_def process_bucket_def Let_def bucket_open_def asset_div_def record_trade_def
      new_bucket_fresh cutoff_time_def key_less_def)

text \<open>
  C10. A fill whose pays and receives asset ids are equal passes the test
  \<^verbatim>\<open>key.base > key.quote\<close>, and so does its mirror image: a block holding both leaves,
  from the empty index, one bucket whose volumes count the trade twice (each volume is the
  sum of the two amounts). The bucket must not open before the cutoff of line 83, or the
  loop of lines 150--160 removes it again.
\<close>

theorem equal_asset_ids_counted_twice:
  assumes "asset_id (pays A) = asset_id (receives A)" and "bucket \<noteq> 0" and "max_hist \<noteq> 0"
    and "\<not> bucket_open now bucket < cutoff_time bucket max_hist"
  shows "\<exists>b. update_market_histories \<lparr>tracked_buckets = [bucket], max_history = max_hist\<rparr>
        \<lparr>timestamp = now, applied_operations =
           [Fill_order A, Fill_order \<lparr>pays = receives A, receives = pays A\<rparr>]\<rparr> [] = Inr [b] \<and>
      key b = bucket_key_of A now bucket \<and>
      base_volume b = amount (pays A) + amount (receives A) \<and>
      quote_volume b = amount (receives A) + amount (pays A) \<and>
      open_base b = amount (pays A) \<and> open_quote b = amount (receives A) \<and>
      close_base b = amount (receives A) \<and> close_quote b = amount (pays A)"
  using assms
  by (simp add: update_market_histories_def process_bucket_def Let_def asset_div_def record_trade_def
      new_bucket_fresh key_less_def bucket_key_of_def update_bucket_def)

theorem equal_asset_ids_counted_twice_witness:
  "asset_id (pays \<lparr>pays = \<lparr>amount = 5, asset_id = 1\<rparr>, receives = \<lparr>amount = 7, asset_id = 1\<rparr>\<rparr>)
     = asset_id (receives \<lparr>pays = \<lparr>amount = 5, asset_id = 1\<rparr>, receives = \<lparr>amount = 7, asset_id = 1\<rparr>\<rparr>) \<and>
   (60 :: uint32_t) \<noteq> 0 \<and> (1000 :: uint32_t) \<noteq> 0 \<and>
   \<not> bucket_open 1500000030 60 < cutoff_time 60 1000 \<and>
   update_market_histories \<lparr>tracked_buckets = [60], max_history = 1000\<rparr>
        \<lparr>timestamp = 1500000030, applied_operations =
           [Fill_order \<lparr>pays = \<lparr>amount = 5, asset_id = 1\<rparr>, receives = \<lparr>amount = 7, asset_id = 1\<rparr>\<rparr>,
            Fill_order \<lparr>pays = \<lparr>amount = 7, asset_id = 1\<rparr>, receives = \<lparr>amount = 5, asset_id = 1\<rparr>\<rparr>]\<rparr> []
     = Inr [\<lparr>key = \<lparr>kbase = 1, kquote = 1, seconds = 60, kopen = 1500000000\<rparr>,
             high_base = 7, high_quote = 5, low_base = 5, low_quote = 7,
             open_base = 5, open_quote = 7, close_base = 7, close_quote = 5,
             base_volume = 12, quote_volume = 12\<rparr>]"
  using equal_asset_ids_counted_twice [of
     "\<lparr>pays = \<lparr>amount = 5, asset_id = 1\<rparr>, receives = \<lparr>amount = 7, asset_id = 1\<rparr>\<rparr>" 60 1000 1500000030]
  by (simp add: bucket_key_of_def update_market_histories_def process_bucket_def Let_def bucket_open_def asset_div_def record_trade_def
      new_bucket_fresh cutoff_time_def key_less_def update_bucket_def price_less_def price_greater_def high_def low_def)

section \<open>The invariant of a bucket\<close>

lemma cross_chain:
  fixes a b c d e f :: int
  assumes "0 \<le> b" "0 \<le> f" "0 < d"
    and "a * d \<le> c * b" and "c * f \<le> e * d"
  shows "a * f \<le> e * b"
proof -
  have "(a * d) * f \<le> (c * b) * f"
    using assms(2,4) by (rule mult_right_mono [rotated])
  also have "(c * b) * f = (c * f) * b" by (simp add: mult_ac)
  also have "(c * f) * b \<le> (e * d) * b"
    using assms(1,5) by (rule mult_right_mono [rotated])
  finally have "(a * f) * d \<le> (e * b) * d" by (simp add: mult_ac)
  with assms(3) show ?thesis by (simp only: mult_le_cancel_right_pos)
qed

lemma cross_le_less:
  fixes a b c d e f :: int
  assumes "0 \<le> b" "0 \<le> c" "0 \<le> d" "0 \<le> e" "0 \<le> f"
    and "a * d \<le> c * b" and "c * f < e * d"
  shows "a * f \<le> e * b"
proof -
  have "0 < e * d" using assms(2,5,7) by (meson le_less_trans mult_nonneg_nonneg)
  then have "0 < d" using assms(3,4) by (simp add: zero_less_mult_iff)
  with assms show ?thesis by (intro cross_chain [of b f d a c e]) simp_all
qed

lemma cross_less_le:
  fixes a b c d e f :: int
  assumes "0 \<le> a" "0 \<le> b" "0 \<le> c" "0 \<le> d" "0 \<le> e" "0 \<le> f"
    and "a * d < c * b" and "c * f \<le> e * d"
  shows "a * f \<le> e * b"
proof (cases "d = 0")
  case True
  have "0 < c * b" using assms(1,4,7) by (meson le_less_trans mult_nonneg_nonneg)
  then have "0 < c" using assms(2,3) by (simp add: zero_less_mult_iff)
  moreover have "c * f \<le> 0" using assms(8) True by simp
  ultimately have "f = 0" using assms(6) by (simp add: mult_le_0_iff)
  then show ?thesis using assms(2,5) by simp
next
  case False
  with assms(4) have "0 < d" by simp
  with assms show ?thesis by (intro cross_chain [of b f d a c e]) simp_all
qed


lemma new_bucket_invariant: "ohlc_invariant (new_bucket k tp fresh_bucket)"
  by (simp add: new_bucket_fresh ohlc_invariant_def price_greater_eq_def price_less_eq_def
      high_def low_def open_price_def close_price_def asset_div_def)

lemma new_bucket_nonneg: "amounts_nonneg tp \<Longrightarrow> bucket_nonneg (new_bucket k tp fresh_bucket)"
  by (simp add: new_bucket_fresh bucket_nonneg_def amounts_nonneg_def
      high_def low_def open_price_def close_price_def asset_div_def)

lemma update_bucket_nonneg:
  "amounts_nonneg tp \<Longrightarrow> bucket_nonneg b \<Longrightarrow> bucket_nonneg (update_bucket tp b)"
  by (simp add: update_bucket_def Let_def bucket_nonneg_def amounts_nonneg_def
      high_def low_def open_price_def close_price_def asset_div_def)

lemma update_bucket_invariant:
  assumes tp: "amounts_nonneg tp" and nn: "bucket_nonneg b" and inv: "ohlc_invariant b"
  shows "ohlc_invariant (update_bucket tp b)"
proof -
  let ?tb = "amount (base tp)" and ?tq = "amount (quote tp)"
  let ?hb = "high_base b" and ?hq = "high_quote b"
  let ?lb = "low_base b" and ?lq = "low_quote b"
  let ?ob = "open_base b" and ?oq = "open_quote b"
  from tp have t0: "0 \<le> ?tb" "0 \<le> ?tq"
    by (simp_all add: amounts_nonneg_def)
  from nn have n0: "0 \<le> ?hb" "0 \<le> ?hq" "0 \<le> ?lb" "0 \<le> ?lq" "0 \<le> ?ob" "0 \<le> ?oq"
    by (simp_all add: bucket_nonneg_def amounts_nonneg_def high_def low_def open_price_def
        asset_div_def)
  from inv have oh: "?ob * ?hq \<le> ?hb * ?oq" and lh: "?lb * ?hq \<le> ?hb * ?lq"
    and lo: "?lb * ?oq \<le> ?ob * ?lq"
    by (simp_all add: ohlc_invariant_def price_greater_eq_def price_less_eq_def
        high_def low_def open_price_def asset_div_def)
  have up_o: "?ob * ?tq \<le> ?tb * ?oq" if "?hb * ?tq < ?tb * ?hq"
    using n0(6) n0(1) n0(2) t0(1) t0(2) oh that by (rule cross_le_less)
  have up_l: "?lb * ?tq \<le> ?tb * ?lq" if "?hb * ?tq < ?tb * ?hq"
    using n0(4) n0(1) n0(2) t0(1) t0(2) lh that by (rule cross_le_less)
  have dn_o: "?tb * ?oq \<le> ?ob * ?tq" if "?tb * ?lq < ?lb * ?tq"
    using t0(1) t0(2) n0(3) n0(4) n0(5) n0(6) that lo by (rule cross_less_le)
  have dn_h: "?tb * ?hq \<le> ?hb * ?tq" if "?tb * ?lq < ?lb * ?tq"
    using t0(1) t0(2) n0(3) n0(4) n0(1) n0(2) that lh by (rule cross_less_le)
  show ?thesis
    using oh lh lo up_o up_l dn_o dn_h
    by (auto simp add: update_bucket_def Let_def ohlc_invariant_def
      price_greater_eq_def price_less_eq_def price_less_def price_greater_def
      high_def low_def open_price_def close_price_def asset_div_def)
qed


lemma set_modify_bucket: "set (modify_bucket k f s) \<subseteq> set s \<union> f ` set s"
  by (induction s) auto

lemma set_remove_loop: "set (remove_loop k bucket cutoff s) \<subseteq> set s"
  by (induction s) auto

lemma set_remove_old_buckets: "set (remove_old_buckets k bucket cutoff s) \<subseteq> set s"
proof (induction s)
  case Nil
  then show ?case by simp
next
  case (Cons b bs)
  show ?case
  proof (cases "key_less (key b) k")
    case True
    with Cons.IH show ?thesis by auto
  next
    case False
    then have "remove_old_buckets k bucket cutoff (b # bs) = remove_loop k bucket cutoff (b # bs)"
      by simp
    then show ?thesis using set_remove_loop [of k bucket cutoff "b # bs"] by simp
  qed
qed

lemma record_trade_good:
  assumes "amounts_nonneg tp" and "\<forall>x\<in>set s. bucket_nonneg x \<and> ohlc_invariant x"
  shows "\<forall>x\<in>set (record_trade k tp s). bucket_nonneg x \<and> ohlc_invariant x"
proof (cases "find_bucket s k")
  case None
  then show ?thesis
    using assms by (simp add: record_trade_def set_create new_bucket_invariant new_bucket_nonneg)
next
  case (Some b)
  then have rt: "record_trade k tp s = modify_bucket k (update_bucket tp) s"
    by (simp add: record_trade_def)
  show ?thesis
  proof
    fix x assume "x \<in> set (record_trade k tp s)"
    then have "x \<in> set s \<or> x \<in> update_bucket tp ` set s"
      using set_modify_bucket [of k "update_bucket tp" s] rt by auto
    then show "bucket_nonneg x \<and> ohlc_invariant x"
      using assms by (auto simp: update_bucket_invariant update_bucket_nonneg)
  qed
qed

lemma process_bucket_good:
  assumes "amounts_nonneg (trade_of f)" and "\<forall>x\<in>set s. bucket_nonneg x \<and> ohlc_invariant x"
    and "process_bucket max_hist now f bucket s = Inr s'"
  shows "\<forall>x\<in>set s'. bucket_nonneg x \<and> ohlc_invariant x"
proof (cases "asset_id (pays f) \<le> asset_id (receives f) \<and> bucket \<noteq> 0")
  case True
  let ?s1 = "record_trade (bucket_key_of f now bucket) (trade_of f) s"
  have g1: "\<forall>x\<in>set ?s1. bucket_nonneg x \<and> ohlc_invariant x"
    using assms(1,2) by (rule record_trade_good)
  have "set s' \<subseteq> set ?s1"
    using assms(3) True process_bucket_accepted [of f bucket max_hist now s]
      set_remove_old_buckets [of "(bucket_key_of f now bucket)\<lparr>kopen := 0\<rparr>" bucket
        "cutoff_time bucket max_hist" ?s1]
    by (auto split: if_splits)
  with g1 show ?thesis by blast
next
  case False
  then have "s' = s"
    using assms(3) by (auto simp: process_bucket_def Let_def split: if_splits)
  with assms(2) show ?thesis by simp
qed

lemma process_buckets_good:
  assumes "amounts_nonneg (trade_of f)"
  shows "\<forall>x\<in>set s. bucket_nonneg x \<and> ohlc_invariant x \<Longrightarrow>
    process_buckets max_hist now f buckets s = Inr s' \<Longrightarrow>
    \<forall>x\<in>set s'. bucket_nonneg x \<and> ohlc_invariant x"
proof (induction buckets arbitrary: s)
  case Nil
  then show ?case by simp
next
  case (Cons bucket buckets)
  from Cons.prems(2) obtain s1 where 1: "process_bucket max_hist now f bucket s = Inr s1"
    and 2: "process_buckets max_hist now f buckets s1 = Inr s'"
    by (auto split: sum.splits)
  have "\<forall>x\<in>set s1. bucket_nonneg x \<and> ohlc_invariant x"
    using assms Cons.prems(1) 1 by (rule process_bucket_good)
  then show ?case using 2 by (rule Cons.IH)
qed

lemma visitor_good:
  assumes "fill_amounts_ok op" and "\<forall>x\<in>set s. bucket_nonneg x \<and> ohlc_invariant x"
    and "operation_process_fill_order p now op s = Inr s'"
  shows "\<forall>x\<in>set s'. bucket_nonneg x \<and> ohlc_invariant x"
proof (cases op)
  case (Fill_order f)
  with assms(1) have "amounts_nonneg (trade_of f)" by (simp add: fill_amounts_ok_def)
  moreover from assms(3) Fill_order
  have "process_buckets (max_history p) now f (tracked_buckets p) s = Inr s'" by simp
  ultimately show ?thesis using assms(2) process_buckets_good by blast
next
  case Witness_create
  with assms show ?thesis by simp
next
  case Witness_withdraw_pay
  with assms show ?thesis by simp
next
  case (Other_operation n)
  with assms show ?thesis by simp
qed

lemma visit_all_good:
  "\<forall>op\<in>set ops. fill_amounts_ok op \<Longrightarrow>
   \<forall>x\<in>set s. bucket_nonneg x \<and> ohlc_invariant x \<Longrightarrow>
   visit_all p now ops s = Inr s' \<Longrightarrow>
   \<forall>x\<in>set s'. bucket_nonneg x \<and> ohlc_invariant x"
proof (induction ops arbitrary: s)
  case Nil
  then show ?case by simp
next
  case (Cons op ops)
  from Cons.prems(3) obtain s1 where 1: "operation_process_fill_order p now op s = Inr s1"
    and 2: "visit_all p now ops s1 = Inr s'"
    by (auto split: sum.splits)
  have "fill_amounts_ok op" using Cons.prems(1) by simp
  then have "\<forall>x\<in>set s1. bucket_nonneg x \<and> ohlc_invariant x"
    using Cons.prems(2) 1 by (rule visitor_good)
  moreover have "\<forall>op\<in>set ops. fill_amounts_ok op" using Cons.prems(1) by simp
  ultimately show ?case using 2 Cons.IH by blast
qed

lemma update_market_histories_good:
  assumes "\<forall>op\<in>set (applied_operations b). fill_amounts_ok op"
    and "\<forall>x\<in>set s. bucket_nonneg x \<and> ohlc_invariant x"
    and "update_market_histories p b s = Inr s'"
  shows "\<forall>x\<in>set s'. bucket_nonneg x \<and> ohlc_invariant x"
proof (cases "max_history p = 0 \<or> length (tracked_buckets p) = 0")
  case True
  with assms(3) have "s' = s" by (auto simp: update_market_histories_def split: if_splits)
  with assms(2) show ?thesis by simp
next
  case False
  with assms(3) have "visit_all p (timestamp b) (applied_operations b) s = Inr s'"
    by (auto simp: update_market_histories_def split: if_splits)
  with assms(1,2) show ?thesis by (rule visit_all_good)
qed

lemma apply_blocks_good:
  "\<forall>b\<in>set blocks. \<forall>op\<in>set (applied_operations b). fill_amounts_ok op \<Longrightarrow>
   \<forall>x\<in>set s. bucket_nonneg x \<and> ohlc_invariant x \<Longrightarrow>
   apply_blocks p blocks s = Inr s' \<Longrightarrow>
   \<forall>x\<in>set s'. bucket_nonneg x \<and> ohlc_invariant x"
proof (induction blocks arbitrary: s)
  case Nil
  then show ?case by simp
next
  case (Cons b blocks)
  from Cons.prems(3) obtain s1 where 1: "update_market_histories p b s = Inr s1"
    and 2: "apply_blocks p blocks s1 = Inr s'"
    by (auto split: sum.splits)
  have "\<forall>op\<in>set (applied_operations b). fill_amounts_ok op" using Cons.prems(1) by simp
  then have "\<forall>x\<in>set s1. bucket_nonneg x \<and> ohlc_invariant x"
    using Cons.prems(2) 1 by (rule update_market_histories_good)
  moreover have "\<forall>b\<in>set blocks. \<forall>op\<in>set (applied_operations b). fill_amounts_ok op"
    using Cons.prems(1) by simp
  ultimately show ?case using 2 Cons.IH by blast
qed

text \<open>
  C7. A bucket's high is at least its open, its close and its low, and its low is at most
  its open, its close and its high, prices being compared by cross-multiplication. The
  initialiser of a new bucket establishes this, the in-place update preserves it, and so
  every bucket of every index reached from the empty index by applying blocks satisfies
  it. The trades' amounts are taken to be non-negative, as quantities of an asset are: on
  negative amounts cross-multiplication is not an order.
\<close>

theorem ohlc_invariant_holds:
  "ohlc_invariant (new_bucket k tp fresh_bucket) \<and>
   (amounts_nonneg tp \<longrightarrow> bucket_nonneg b \<longrightarrow> ohlc_invariant b \<longrightarrow>
      ohlc_invariant (update_bucket tp b)) \<and>
   ((\<forall>blk\<in>set blocks. \<forall>op\<in>set (applied_operations blk). fill_amounts_ok op) \<longrightarrow>
      apply_blocks p blocks [] = Inr s \<longrightarrow> (\<forall>x\<in>set s. ohlc_invariant x))"
proof -
  have "\<forall>x\<in>set s. ohlc_invariant x"
    if "\<forall>blk\<in>set blocks. \<forall>op\<in>set (applied_operations blk). fill_amounts_ok op"
      and "apply_blocks p blocks [] = Inr s"
    using apply_blocks_good [OF that(1) _ that(2)] by simp
  then show ?thesis
    using new_bucket_invariant [of k tp] update_bucket_invariant [of tp b] by blast
qed

theorem ohlc_invariant_holds_witness:
  "amounts_nonneg (trade_of \<lparr>pays = \<lparr>amount = 5, asset_id = 1\<rparr>, receives = \<lparr>amount = 2, asset_id = 2\<rparr>\<rparr>) \<and>
   bucket_nonneg
     \<lparr>key = \<lparr>kbase = 1, kquote = 2, seconds = 60, kopen = 1500000000\<rparr>,
       high_base = 3, high_quote = 1, low_base = 1, low_quote = 1,
       open_base = 2, open_quote = 1, close_base = 1, close_quote = 1,
       base_volume = 6, quote_volume = 3\<rparr> \<and>
   ohlc_invariant
     \<lparr>key = \<lparr>kbase = 1, kquote = 2, seconds = 60, kopen = 1500000000\<rparr>,
       high_base = 3, high_quote = 1, low_base = 1, low_quote = 1,
       open_base = 2, open_quote = 1, close_base = 1, close_quote = 1,
       base_volume = 6, quote_volume = 3\<rparr> \<and>
   ohlc_invariant (update_bucket (trade_of \<lparr>pays = \<lparr>amount = 5, asset_id = 1\<rparr>, receives = \<lparr>amount = 2, asset_id = 2\<rparr>\<rparr>)
     \<lparr>key = \<lparr>kbase = 1, kquote = 2, seconds = 60, kopen = 1500000000\<rparr>,
       high_base = 3, high_quote = 1, low_base = 1, low_quote = 1,
       open_base = 2, open_quote = 1, close_base = 1, close_quote = 1,
       base_volume = 6, quote_volume = 3\<rparr>) \<and>
   fill_amounts_ok (Fill_order \<lparr>pays = \<lparr>amount = 2, asset_id = 1\<rparr>, receives = \<lparr>amount = 1, asset_id = 2\<rparr>\<rparr>) \<and>
   fill_amounts_ok (Fill_order \<lparr>pays = \<lparr>amount = 3, asset_id = 1\<rparr>, receives = \<lparr>amount = 1, asset_id = 2\<rparr>\<rparr>) \<and>
   fill_amounts_ok (Fill_order \<lparr>pays = \<lparr>amount = 1, asset_id = 1\<rparr>, receives = \<lparr>amount = 1, asset_id = 2\<rparr>\<rparr>) \<and>
   fill_amounts_ok (Fill_order \<lparr>pays = \<lparr>amount = 5, asset_id = 1\<rparr>, receives = \<lparr>amount = 2, asset_id = 2\<rparr>\<rparr>) \<and>
   apply_blocks \<lparr>tracked_buckets = [60], max_history = 1000\<rparr>
     [\<lparr>timestamp = 1500000030, applied_operations =
        [Fill_order \<lparr>pays = \<lparr>amount = 2, asset_id = 1\<rparr>, receives = \<lparr>amount = 1, asset_id = 2\<rparr>\<rparr>,
         Fill_order \<lparr>pays = \<lparr>amount = 3, asset_id = 1\<rparr>, receives = \<lparr>amount = 1, asset_id = 2\<rparr>\<rparr>,
         Fill_order \<lparr>pays = \<lparr>amount = 1, asset_id = 1\<rparr>, receives = \<lparr>amount = 1, asset_id = 2\<rparr>\<rparr>,
         Fill_order \<lparr>pays = \<lparr>amount = 5, asset_id = 1\<rparr>, receives = \<lparr>amount = 2, asset_id = 2\<rparr>\<rparr>]\<rparr>] []
     = Inr [\<lparr>key = \<lparr>kbase = 1, kquote = 2, seconds = 60, kopen = 1500000000\<rparr>,
       high_base = 3, high_quote = 1, low_base = 1, low_quote = 1,
       open_base = 2, open_quote = 1, close_base = 5, close_quote = 2,
       base_volume = 11, quote_volume = 5\<rparr>] \<and>
   ohlc_invariant
     \<lparr>key = \<lparr>kbase = 1, kquote = 2, seconds = 60, kopen = 1500000000\<rparr>,
       high_base = 3, high_quote = 1, low_base = 1, low_quote = 1,
       open_base = 2, open_quote = 1, close_base = 5, close_quote = 2,
       base_volume = 11, quote_volume = 5\<rparr>"
  using ohlc_invariant_holds [of
      "\<lparr>kbase = 1, kquote = 2, seconds = 60, kopen = 1500000000\<rparr>"
      "trade_of \<lparr>pays = \<lparr>amount = 5, asset_id = 1\<rparr>, receives = \<lparr>amount = 2, asset_id = 2\<rparr>\<rparr>"
      "\<lparr>key = \<lparr>kbase = 1, kquote = 2, seconds = 60, kopen = 1500000000\<rparr>,
       high_base = 3, high_quote = 1, low_base = 1, low_quote = 1,
       open_base = 2, open_quote = 1, close_base = 1, close_quote = 1,
       base_volume = 6, quote_volume = 3\<rparr>"
      "[\<lparr>timestamp = 1500000030, applied_operations =
        [Fill_order \<lparr>pays = \<lparr>amount = 2, asset_id = 1\<rparr>, receives = \<lparr>amount = 1, asset_id = 2\<rparr>\<rparr>,
         Fill_order \<lparr>pays = \<lparr>amount = 3, asset_id = 1\<rparr>, receives = \<lparr>amount = 1, asset_id = 2\<rparr>\<rparr>,
         Fill_order \<lparr>pays = \<lparr>amount = 1, asset_id = 1\<rparr>, receives = \<lparr>amount = 1, asset_id = 2\<rparr>\<rparr>,
         Fill_order \<lparr>pays = \<lparr>amount = 5, asset_id = 1\<rparr>, receives = \<lparr>amount = 2, asset_id = 2\<rparr>\<rparr>]\<rparr>]"
      "\<lparr>tracked_buckets = [60], max_history = 1000\<rparr>"
      "[\<lparr>key = \<lparr>kbase = 1, kquote = 2, seconds = 60, kopen = 1500000000\<rparr>,
       high_base = 3, high_quote = 1, low_base = 1, low_quote = 1,
       open_base = 2, open_quote = 1, close_base = 5, close_quote = 2,
       base_volume = 11, quote_volume = 5\<rparr>]"]
  by (simp add: fill_amounts_ok_def amounts_nonneg_def bucket_nonneg_def ohlc_invariant_def
      price_less_eq_def price_greater_eq_def open_price_def close_price_def
      update_market_histories_def process_bucket_def Let_def bucket_open_def
      trade_of_def asset_div_def record_trade_def new_bucket_fresh cutoff_time_def key_less_def
      update_bucket_def price_less_def price_greater_def high_def low_def)

section \<open>Removing old buckets\<close>

lemma key_less_trans: "key_less a b \<Longrightarrow> key_less b c \<Longrightarrow> key_less a c"
  by (auto simp: key_less_def)

lemma key_less_irrefl: "\<not> key_less a a"
  by (simp add: key_less_def)

lemma key_less_total: "key_less a b \<or> a = b \<or> key_less b a"
  by (cases a; cases b) (auto simp: key_less_def)


lemma remove_loop_filter:
  assumes "sorted_wrt key_less (map key s)" and "seconds k = bucket" and "kopen k = 0"
    and "\<forall>b\<in>set s. \<not> key_less (key b) k"
  shows "remove_loop k bucket cutoff s =
     filter (\<lambda>b. \<not> (kbase (key b) = kbase k \<and> kquote (key b) = kquote k \<and>
                     seconds (key b) = bucket \<and> kopen (key b) < cutoff)) s"
  using assms(1,4)
proof (induction s)
  case Nil
  then show ?case by simp
next
  case (Cons b bs)
  show ?case
  proof (cases "kbase (key b) = kbase k \<and> kquote (key b) = kquote k \<and>
                     seconds (key b) = bucket \<and> kopen (key b) < cutoff")
    case True
    with Cons show ?thesis by simp
  next
    case False
    have "\<not> (kbase (key c) = kbase k \<and> kquote (key c) = kquote k \<and>
                     seconds (key c) = bucket \<and> kopen (key c) < cutoff)" if "c \<in> set bs" for c
    proof -
      from Cons.prems(1) that have "key_less (key b) (key c)" by auto
      moreover from Cons.prems(2) have "\<not> key_less (key b) k" by simp
      ultimately show ?thesis
        using False assms(2,3) by (auto simp: key_less_def)
    qed
    then have "filter (\<lambda>b. \<not> (kbase (key b) = kbase k \<and> kquote (key b) = kquote k \<and>
                     seconds (key b) = bucket \<and> kopen (key b) < cutoff)) bs = bs"
      by (simp add: filter_id_conv)
    with False show ?thesis by auto
  qed
qed

lemma remove_old_buckets_filter:
  assumes "bucket_index_ok s" and "seconds k = bucket" and "kopen k = 0"
  shows "remove_old_buckets k bucket cutoff s =
     filter (\<lambda>b. \<not> (kbase (key b) = kbase k \<and> kquote (key b) = kquote k \<and>
                     seconds (key b) = bucket \<and> kopen (key b) < cutoff)) s"
  using assms(1) unfolding bucket_index_ok_def
proof (induction s)
  case Nil
  then show ?case by simp
next
  case (Cons b bs)
  show ?case
  proof (cases "key_less (key b) k")
    case True
    then have "\<not> (kbase (key b) = kbase k \<and> kquote (key b) = kquote k \<and>
                     seconds (key b) = bucket \<and> kopen (key b) < cutoff)"
      using assms(2,3) by (auto simp: key_less_def)
    with True Cons show ?thesis by simp
  next
    case False
    have "\<not> key_less (key c) k" if "c \<in> set (b # bs)" for c
    proof (cases "c = b")
      case True
      with False show ?thesis by simp
    next
      case ne: False
      with that Cons.prems have "key_less (key b) (key c)" by auto
      with False show ?thesis using key_less_trans by blast
    qed
    then have "\<forall>c\<in>set (b # bs). \<not> key_less (key c) k" by blast
    from remove_loop_filter [OF Cons.prems assms(2,3) this, of cutoff] False
    show ?thesis by simp
  qed
qed

lemma create_bucket_ok:
  assumes "bucket_index_ok s" and "find_bucket s (key x) = None"
  shows "bucket_index_ok (create_bucket x s)"
  using assms unfolding bucket_index_ok_def
proof (induction s)
  case Nil
  then show ?case by simp
next
  case (Cons b bs)
  from Cons.prems(2) have ne: "key b \<noteq> key x" and nf: "find_bucket bs (key x) = None"
    by (auto split: if_splits)
  show ?case
  proof (cases "key_less (key x) (key b)")
    case True
    with Cons.prems(1) show ?thesis
      using key_less_trans by (auto simp: image_iff)
  next
    case False
    with ne have bx: "key_less (key b) (key x)" using key_less_total [of "key x" "key b"] by auto
    from Cons.prems(1) nf have "sorted_wrt key_less (map key (create_bucket x bs))"
      using Cons.IH by simp
    with False bx Cons.prems(1) show ?thesis
      by (auto simp: set_create)
  qed
qed

lemma record_trade_ok: "bucket_index_ok s \<Longrightarrow> bucket_index_ok (record_trade k tp s)"
proof (cases "find_bucket s k")
  case None
  assume "bucket_index_ok s"
  with None show ?thesis
    by (simp add: record_trade_def create_bucket_ok key_new_bucket)
next
  case (Some b)
  assume "bucket_index_ok s"
  with Some show ?thesis
    by (simp add: record_trade_def bucket_index_ok_def map_key_modify key_update_bucket)
qed

lemma process_bucket_ok:
  assumes "bucket_index_ok s" and "process_bucket max_hist now f bucket s = Inr s'"
  shows "bucket_index_ok s'"
proof (cases "asset_id (pays f) \<le> asset_id (receives f) \<and> bucket \<noteq> 0")
  case True
  let ?k = "bucket_key_of f now bucket"
  let ?s1 = "record_trade ?k (trade_of f) s"
  have ok1: "bucket_index_ok ?s1" using assms(1) by (rule record_trade_ok)
  have "bucket_index_ok (remove_old_buckets (?k\<lparr>kopen := 0\<rparr>) bucket (cutoff_time bucket max_hist) ?s1)"
    using remove_old_buckets_filter [OF ok1, of "?k\<lparr>kopen := 0\<rparr>" bucket "cutoff_time bucket max_hist"]
      ok1
    by (simp add: bucket_key_of_def bucket_index_ok_def sorted_wrt_map sorted_wrt_filter)
  with ok1 show ?thesis
    using assms(2) True process_bucket_accepted [of f bucket max_hist now s]
    by (auto split: if_splits)
next
  case False
  then have "s' = s"
    using assms(2) by (auto simp: process_bucket_def Let_def split: if_splits)
  with assms(1) show ?thesis by simp
qed


lemma process_buckets_ok:
  "bucket_index_ok s \<Longrightarrow> process_buckets max_hist now f buckets s = Inr s' \<Longrightarrow>
   bucket_index_ok s'"
proof (induction buckets arbitrary: s)
  case Nil
  then show ?case by simp
next
  case (Cons bucket buckets)
  from Cons.prems(2) obtain s1 where 1: "process_bucket max_hist now f bucket s = Inr s1"
    and 2: "process_buckets max_hist now f buckets s1 = Inr s'"
    by (auto split: sum.splits)
  have "bucket_index_ok s1" using Cons.prems(1) 1 by (rule process_bucket_ok)
  then show ?case using 2 by (rule Cons.IH)
qed

lemma visitor_ok:
  "bucket_index_ok s \<Longrightarrow> operation_process_fill_order p now op s = Inr s' \<Longrightarrow>
   bucket_index_ok s'"
  by (cases op) (auto dest: process_buckets_ok)

lemma visit_all_ok:
  "bucket_index_ok s \<Longrightarrow> visit_all p now ops s = Inr s' \<Longrightarrow> bucket_index_ok s'"
proof (induction ops arbitrary: s)
  case Nil
  then show ?case by simp
next
  case (Cons op ops)
  from Cons.prems(2) obtain s1 where 1: "operation_process_fill_order p now op s = Inr s1"
    and 2: "visit_all p now ops s1 = Inr s'"
    by (auto split: sum.splits)
  have "bucket_index_ok s1" using Cons.prems(1) 1 by (rule visitor_ok)
  then show ?case using 2 by (rule Cons.IH)
qed

lemma update_market_histories_ok:
  "bucket_index_ok s \<Longrightarrow> update_market_histories p b s = Inr s' \<Longrightarrow> bucket_index_ok s'"
  by (auto simp: update_market_histories_def split: if_splits dest: visit_all_ok)

lemma apply_blocks_ok:
  "bucket_index_ok s \<Longrightarrow> apply_blocks p blocks s = Inr s' \<Longrightarrow> bucket_index_ok s'"
proof (induction blocks arbitrary: s)
  case Nil
  then show ?case by simp
next
  case (Cons b blocks)
  from Cons.prems(2) obtain s1 where 1: "update_market_histories p b s = Inr s1"
    and 2: "apply_blocks p blocks s1 = Inr s'"
    by (auto split: sum.splits)
  have "bucket_index_ok s1" using Cons.prems(1) 1 by (rule update_market_histories_ok)
  then show ?case using 2 by (rule Cons.IH)
qed

lemma reachable_index_ok: "apply_blocks p blocks [] = Inr s \<Longrightarrow> bucket_index_ok s"
  using apply_blocks_ok [of "[]" p blocks s] by (simp add: bucket_index_ok_def)

text \<open>
  What the loop of lines 145--161 does on an index in key order: after the trade has been
  recorded, it removes exactly the objects of the fill's market and of this bucket size
  that open before \<^verbatim>\<open>bucket * max_history\<close> seconds after the epoch, and leaves every
  other object in place. The block time does not enter the cutoff.
\<close>

lemma process_bucket_removes:
  assumes "bucket_index_ok s" and "asset_id (pays f) \<le> asset_id (receives f)"
    and "bucket \<noteq> 0" and "max_hist \<noteq> 0"
  shows "process_bucket max_hist now f bucket s =
     Inr (filter (\<lambda>b. \<not> (kbase (key b) = asset_id (pays f) \<and>
                          kquote (key b) = asset_id (receives f) \<and>
                          seconds (key b) = bucket \<and>
                          kopen (key b) < bucket * max_hist))
            (record_trade (bucket_key_of f now bucket) (trade_of f) s))"
proof -
  let ?k = "bucket_key_of f now bucket"
  have ok1: "bucket_index_ok (record_trade ?k (trade_of f) s)"
    using assms(1) by (rule record_trade_ok)
  show ?thesis
    using remove_old_buckets_filter [OF ok1, of "?k\<lparr>kopen := 0\<rparr>" bucket "cutoff_time bucket max_hist"]
      process_bucket_accepted [OF assms(2,3), of max_hist now s] assms(4)
    by (simp add: bucket_key_of_def cutoff_time_def)
qed

text \<open>
  C1. The cutoff of line 83 is \<^verbatim>\<open>bucket * max_history\<close> seconds after the epoch, not
  that long before the block time. With a bucket size of 60 and a history depth of 3 the
  cutoff is second 180: at block time 1500000000 the bucket that opened 61 * 60 seconds
  earlier opens before the block time less 3 * 60 seconds, and yet the update for its
  market and bucket size leaves it in the index, next to the bucket of the new trade.
\<close>

theorem old_bucket_survives:
  "cutoff_time 60 3 = 180 \<and>
   (1500000000 - 61 * 60 :: time_point_sec) < 1500000000 - 60 * 3 \<and>
   update_market_histories \<lparr>tracked_buckets = [60], max_history = 3\<rparr>
     \<lparr>timestamp = 1500000000, applied_operations =
        [Fill_order \<lparr>pays = \<lparr>amount = 5, asset_id = 1\<rparr>, receives = \<lparr>amount = 7, asset_id = 2\<rparr>\<rparr>]\<rparr>
     [\<lparr>key = \<lparr>kbase = 1, kquote = 2, seconds = 60, kopen = 1500000000 - 61 * 60\<rparr>,
       high_base = 3, high_quote = 1, low_base = 1, low_quote = 1,
       open_base = 2, open_quote = 1, close_base = 1, close_quote = 1,
       base_volume = 6, quote_volume = 3\<rparr>]
   = Inr [\<lparr>key = \<lparr>kbase = 1, kquote = 2, seconds = 60, kopen = 1500000000 - 61 * 60\<rparr>,
           high_base = 3, high_quote = 1, low_base = 1, low_quote = 1,
           open_base = 2, open_quote = 1, close_base = 1, close_quote = 1,
           base_volume = 6, quote_volume = 3\<rparr>,
          \<lparr>key = \<lparr>kbase = 1, kquote = 2, seconds = 60, kopen = 1500000000\<rparr>,
           high_base = 5, high_quote = 7, low_base = 5, low_quote = 7,
           open_base = 5, open_quote = 7, close_base = 5, close_quote = 7,
           base_volume = 5, quote_volume = 7\<rparr>]"
  by (simp add: update_market_histories_def process_bucket_def Let_def bucket_open_def
      asset_div_def record_trade_def new_bucket_fresh cutoff_time_def key_less_def)

section \<open>The bucket under one key\<close>

lemma find_create_other:
  "k \<noteq> key x \<Longrightarrow> find_bucket (create_bucket x s) k = find_bucket s k"
  by (induction s) auto

lemma find_modify_other:
  "k' \<noteq> k \<Longrightarrow> (\<And>b. key (f b) = key b) \<Longrightarrow>
   find_bucket (modify_bucket k f s) k' = find_bucket s k'"
  by (induction s) auto

lemma find_record_trade_other:
  "k' \<noteq> k \<Longrightarrow> find_bucket (record_trade k tp s) k' = find_bucket s k'"
  by (cases "find_bucket s k")
    (simp_all add: record_trade_def find_create_other key_new_bucket find_modify_other
      key_update_bucket)

lemma find_route_trade:
  "find_bucket (record_trade k (trade_of f) s) k = route_trade k (find_bucket s k) f"
  by (simp add: find_record_trade route_trade_def)

lemma find_remove_loop:
  assumes "\<not> (kbase k = kbase k0 \<and> kquote k = kquote k0 \<and> seconds k = bucket \<and> kopen k < cutoff)"
  shows "find_bucket (remove_loop k0 bucket cutoff s) k = find_bucket s k"
  using assms by (induction s) auto

lemma find_remove_old_buckets:
  assumes "\<not> (kbase k = kbase k0 \<and> kquote k = kquote k0 \<and> seconds k = bucket \<and> kopen k < cutoff)"
  shows "find_bucket (remove_old_buckets k0 bucket cutoff s) k = find_bucket s k"
proof (induction s)
  case Nil
  then show ?case by simp
next
  case (Cons b bs)
  show ?case
  proof (cases "key_less (key b) k0")
    case True
    with Cons show ?thesis by simp
  next
    case False
    then have "remove_old_buckets k0 bucket cutoff (b # bs) = remove_loop k0 bucket cutoff (b # bs)"
      by simp
    then show ?thesis using find_remove_loop [OF assms, of "b # bs"] by simp
  qed
qed

lemma process_bucket_at_key:
  assumes nz: "bucket \<noteq> 0"
    and keep: "max_hist = 0 \<or> \<not> kopen k < cutoff_time (seconds k) max_hist"
    and le: "kbase k \<le> kquote k"
  shows "\<exists>s'. process_bucket max_hist now f bucket s = Inr s' \<and>
     find_bucket s' k =
       (if routes_to k now f \<and> bucket = seconds k then route_trade k (find_bucket s k) f
        else find_bucket s k)"
proof (cases "asset_id (pays f) \<le> asset_id (receives f)")
  case False
  then have "process_bucket max_hist now f bucket s = Inr s"
    by (simp add: process_bucket_skipped)
  moreover have "\<not> routes_to k now f"
    using False le by (auto simp: routes_to_def)
  ultimately show ?thesis by simp
next
  case True
  let ?kf = "bucket_key_of f now bucket"
  let ?s1 = "record_trade ?kf (trade_of f) s"
  let ?s2 = "remove_old_buckets (?kf\<lparr>kopen := 0\<rparr>) bucket (cutoff_time bucket max_hist) ?s1"
  have pb: "process_bucket max_hist now f bucket s = Inr (if max_hist \<noteq> 0 then ?s2 else ?s1)"
    using True nz by (rule process_bucket_accepted)
  have same: "?kf = k \<longleftrightarrow> routes_to k now f \<and> bucket = seconds k"
    by (cases k) (auto simp: bucket_key_of_def routes_to_def)
  have f1: "find_bucket ?s1 k =
       (if routes_to k now f \<and> bucket = seconds k then route_trade k (find_bucket s k) f
        else find_bucket s k)"
  proof (cases "?kf = k")
    case True
    then have "find_bucket ?s1 k = route_trade k (find_bucket s k) f"
      using find_route_trade [of ?kf f s] by simp
    moreover from True same have "routes_to k now f \<and> bucket = seconds k" by blast
    ultimately show ?thesis by simp
  next
    case False
    then have "find_bucket ?s1 k = find_bucket s k"
      by (simp add: find_record_trade_other)
    moreover from False same have "\<not> (routes_to k now f \<and> bucket = seconds k)" by blast
    ultimately show ?thesis by auto
  qed
  have f2: "find_bucket ?s2 k = find_bucket ?s1 k" if "max_hist \<noteq> 0"
  proof -
    have "\<not> (kbase k = kbase (?kf\<lparr>kopen := 0\<rparr>) \<and> kquote k = kquote (?kf\<lparr>kopen := 0\<rparr>) \<and>
             seconds k = bucket \<and> kopen k < cutoff_time bucket max_hist)"
      using keep that by auto
    then show ?thesis by (rule find_remove_old_buckets)
  qed
  show ?thesis using pb f1 f2 by auto
qed

lemma process_buckets_at_key:
  assumes keep: "max_hist = 0 \<or> \<not> kopen k < cutoff_time (seconds k) max_hist"
    and le: "kbase k \<le> kquote k"
  shows "0 \<notin> set buckets \<Longrightarrow> distinct buckets \<Longrightarrow>
     \<exists>s'. process_buckets max_hist now f buckets s = Inr s' \<and>
       find_bucket s' k =
         (if routes_to k now f \<and> seconds k \<in> set buckets then route_trade k (find_bucket s k) f
          else find_bucket s k)"
proof (induction buckets arbitrary: s)
  case Nil
  then show ?case by simp
next
  case (Cons bucket buckets)
  from Cons.prems have nz: "bucket \<noteq> 0" and rest: "0 \<notin> set buckets"
    and d: "distinct buckets" and nin: "bucket \<notin> set buckets" by auto
  from process_bucket_at_key [OF nz keep le, of now f s] obtain s1 where
    1: "process_bucket max_hist now f bucket s = Inr s1"
    and f1: "find_bucket s1 k =
       (if routes_to k now f \<and> bucket = seconds k then route_trade k (find_bucket s k) f
        else find_bucket s k)" by blast
  from Cons.IH [OF rest d, of s1] obtain s' where
    2: "process_buckets max_hist now f buckets s1 = Inr s'"
    and f2: "find_bucket s' k =
         (if routes_to k now f \<and> seconds k \<in> set buckets then route_trade k (find_bucket s1 k) f
          else find_bucket s1 k)" by blast
  have "find_bucket s' k =
         (if routes_to k now f \<and> seconds k \<in> set (bucket # buckets)
          then route_trade k (find_bucket s k) f else find_bucket s k)"
    using f1 f2 nin by auto
  with 1 2 show ?case by simp
qed

lemma visitor_at_key:
  assumes "0 \<notin> set (tracked_buckets p)" and "distinct (tracked_buckets p)"
    and "seconds k \<in> set (tracked_buckets p)"
    and "max_history p = 0 \<or> \<not> kopen k < cutoff_time (seconds k) (max_history p)"
    and "kbase k \<le> kquote k"
  shows "\<exists>s'. operation_process_fill_order p now op s = Inr s' \<and>
     find_bucket s' k = foldl (route_trade k) (find_bucket s k) (routed_fills k now [op])"
proof (cases op)
  case (Fill_order f)
  from process_buckets_at_key [OF assms(4,5,1,2), of now f s] assms(3) Fill_order
  show ?thesis by auto
qed simp_all





section \<open>Opening a bucket\<close>



section \<open>A history depth of zero\<close>

lemma process_bucket_no_history_limit:
  "process_bucket 0 now f bucket s = Inr s' \<Longrightarrow> key ` set s \<subseteq> key ` set s'"
  by (auto simp: process_bucket_def Let_def keys_record_trade split: if_splits)

lemma process_buckets_no_history_limit:
  "process_buckets 0 now f buckets s = Inr s' \<Longrightarrow> key ` set s \<subseteq> key ` set s'"
proof (induction buckets arbitrary: s)
  case Nil
  then show ?case by simp
next
  case (Cons bucket buckets)
  from Cons.prems obtain s1 where 1: "process_bucket 0 now f bucket s = Inr s1"
    and 2: "process_buckets 0 now f buckets s1 = Inr s'"
    by (auto split: sum.splits)
  from 1 have "key ` set s \<subseteq> key ` set s1" by (rule process_bucket_no_history_limit)
  moreover from 2 have "key ` set s1 \<subseteq> key ` set s'" by (rule Cons.IH)
  ultimately show ?case by blast
qed

lemma process_buckets_no_limit_fold:
  assumes "asset_id (pays f) \<le> asset_id (receives f)"
  shows "0 \<notin> set buckets \<Longrightarrow>
     process_buckets 0 now f buckets s =
       Inr (foldl (\<lambda>s d. record_trade (bucket_key_of f now d) (trade_of f) s) s buckets)"
proof (induction buckets arbitrary: s)
  case Nil
  then show ?case by simp
next
  case (Cons bucket buckets)
  from Cons.prems have nz: "bucket \<noteq> 0" and rest: "0 \<notin> set buckets" by auto
  have "process_bucket 0 now f bucket s = Inr (record_trade (bucket_key_of f now bucket) (trade_of f) s)"
    using process_bucket_accepted [OF assms nz, of 0 now s] by simp
  then show ?case using Cons.IH [OF rest] by simp
qed

text \<open>
  With a history depth of zero, a block holding an accepted fill leaves the empty index
  empty: the trade is not aggregated, against the second half of C2 as it is stated.
\<close>

theorem max_history_zero_counterexample:
  "update_market_histories \<lparr>tracked_buckets = [60], max_history = 0\<rparr>
     \<lparr>timestamp = 1500000030, applied_operations =
        [Fill_order \<lparr>pays = \<lparr>amount = 5, asset_id = 1\<rparr>, receives = \<lparr>amount = 7, asset_id = 2\<rparr>\<rparr>]\<rparr> []
   = Inr []"
  by (simp add: update_market_histories_def)

text \<open>
  C2 (amended). With \<^verbatim>\<open>_maximum_history_per_bucket_size\<close> zero,
  \<^verbatim>\<open>update_market_histories\<close> returns at line 171 and the index stays as it was: no
  object is removed and no trade is aggregated. The visitor itself, run with a history
  depth of zero, removes nothing (every key of the index is still a key afterwards); for a
  fill that passes the filter and tracked sizes none of which is zero, it does exactly the
  lookup, creation or update of lines 104--143 for each tracked size in turn and nothing
  else; so, the sizes being distinct, the bucket under the key of each tracked size is
  afterwards the one created from the trade when there was none, and the one there was,
  updated with the trade, otherwise.
\<close>

theorem max_history_zero_skips_update:
  assumes "max_history p = 0"
  shows "update_market_histories p b s = Inr s \<and>
     (operation_process_fill_order p now op s = Inr s' \<longrightarrow>
        (\<forall>x\<in>set s. \<exists>y\<in>set s'. key y = key x)) \<and>
     (asset_id (pays f) \<le> asset_id (receives f) \<and> 0 \<notin> set (tracked_buckets p) \<longrightarrow>
        operation_process_fill_order p now (Fill_order f) s =
          Inr (foldl (\<lambda>s d. record_trade (bucket_key_of f now d) (trade_of f) s) s
                 (tracked_buckets p))) \<and>
     (asset_id (pays f) \<le> asset_id (receives f) \<and> 0 \<notin> set (tracked_buckets p) \<and>
      distinct (tracked_buckets p) \<longrightarrow>
        (\<exists>s''. operation_process_fill_order p now (Fill_order f) s = Inr s'' \<and>
           (\<forall>d\<in>set (tracked_buckets p).
              find_bucket s'' (bucket_key_of f now d) =
                Some (case find_bucket s (bucket_key_of f now d) of
                        None \<Rightarrow> new_bucket (bucket_key_of f now d) (trade_of f) fresh_bucket
                      | Some x \<Rightarrow> update_bucket (trade_of f) x))))"
proof -
  have 1: "update_market_histories p b s = Inr s"
    using assms by (simp add: update_market_histories_def)
  have 2: "\<forall>x\<in>set s. \<exists>y\<in>set s'. key y = key x"
    if h: "operation_process_fill_order p now op s = Inr s'"
  proof (cases op)
    case (Fill_order g)
    with h assms have "process_buckets 0 now g (tracked_buckets p) s = Inr s'" by simp
    then have "key ` set s \<subseteq> key ` set s'" by (rule process_buckets_no_history_limit)
    then show ?thesis by (auto simp: image_iff subset_iff) metis
  next
    case Witness_create
    with h show ?thesis by auto
  next
    case Witness_withdraw_pay
    with h show ?thesis by auto
  next
    case (Other_operation n)
    with h show ?thesis by auto
  qed
  have 3: "operation_process_fill_order p now (Fill_order f) s =
          Inr (foldl (\<lambda>s d. record_trade (bucket_key_of f now d) (trade_of f) s) s
                 (tracked_buckets p))"
    if "asset_id (pays f) \<le> asset_id (receives f)" and "0 \<notin> set (tracked_buckets p)"
    using process_buckets_no_limit_fold [OF that, of now s] assms by simp
  have 4: "\<exists>s''. operation_process_fill_order p now (Fill_order f) s = Inr s'' \<and>
           (\<forall>d\<in>set (tracked_buckets p).
              find_bucket s'' (bucket_key_of f now d) =
                Some (case find_bucket s (bucket_key_of f now d) of
                        None \<Rightarrow> new_bucket (bucket_key_of f now d) (trade_of f) fresh_bucket
                      | Some x \<Rightarrow> update_bucket (trade_of f) x))"
    if acc: "asset_id (pays f) \<le> asset_id (receives f)" and nz: "0 \<notin> set (tracked_buckets p)"
      and di: "distinct (tracked_buckets p)"
  proof -
    let ?s = "foldl (\<lambda>s d. record_trade (bucket_key_of f now d) (trade_of f) s) s (tracked_buckets p)"
    have r: "operation_process_fill_order p now (Fill_order f) s = Inr ?s"
      using acc nz by (rule 3)
    have "find_bucket ?s (bucket_key_of f now d) =
                Some (case find_bucket s (bucket_key_of f now d) of
                        None \<Rightarrow> new_bucket (bucket_key_of f now d) (trade_of f) fresh_bucket
                      | Some x \<Rightarrow> update_bucket (trade_of f) x)"
      if d: "d \<in> set (tracked_buckets p)" for d
    proof -
      let ?k = "bucket_key_of f now d"
      have le: "kbase ?k \<le> kquote ?k" using acc by (simp add: bucket_key_of_def)
      have din: "seconds ?k \<in> set (tracked_buckets p)" using d by (simp add: bucket_key_of_def)
      have keep: "max_history p = 0 \<or> \<not> kopen ?k < cutoff_time (seconds ?k) (max_history p)"
        using assms by simp
      have rt: "routes_to ?k now f" by (simp add: routes_to_def bucket_key_of_def)
      from visitor_at_key [OF nz di din keep le, of now "Fill_order f" s] r rt
      show ?thesis by (simp add: route_trade_def)
    qed
    with r show ?thesis by blast
  qed
  from 1 2 3 4 show ?thesis by blast
qed

theorem max_history_zero_skips_update_witness:
  "max_history \<lparr>tracked_buckets = [60, 3600], max_history = 0\<rparr> = 0 \<and>
   asset_id (pays \<lparr>pays = \<lparr>amount = 5, asset_id = 1\<rparr>, receives = \<lparr>amount = 7, asset_id = 2\<rparr>\<rparr>)
     \<le> asset_id (receives \<lparr>pays = \<lparr>amount = 5, asset_id = 1\<rparr>, receives = \<lparr>amount = 7, asset_id = 2\<rparr>\<rparr>) \<and>
   (0 :: uint32_t) \<notin> set (tracked_buckets \<lparr>tracked_buckets = [60, 3600], max_history = 0\<rparr>) \<and>
   distinct (tracked_buckets \<lparr>tracked_buckets = [60, 3600], max_history = 0\<rparr>) \<and>
   update_market_histories \<lparr>tracked_buckets = [60, 3600], max_history = 0\<rparr>
     \<lparr>timestamp = 1500000030, applied_operations =
        [Fill_order \<lparr>pays = \<lparr>amount = 5, asset_id = 1\<rparr>, receives = \<lparr>amount = 7, asset_id = 2\<rparr>\<rparr>]\<rparr>
     [\<lparr>key = \<lparr>kbase = 1, kquote = 2, seconds = 60, kopen = 1500000000\<rparr>,
             high_base = 3, high_quote = 1, low_base = 1, low_quote = 1,
             open_base = 2, open_quote = 1, close_base = 1, close_quote = 1,
             base_volume = 6, quote_volume = 3\<rparr>]
   = Inr [\<lparr>key = \<lparr>kbase = 1, kquote = 2, seconds = 60, kopen = 1500000000\<rparr>,
             high_base = 3, high_quote = 1, low_base = 1, low_quote = 1,
             open_base = 2, open_quote = 1, close_base = 1, close_quote = 1,
             base_volume = 6, quote_volume = 3\<rparr>] \<and>
   operation_process_fill_order \<lparr>tracked_buckets = [60, 3600], max_history = 0\<rparr> 1500000030
     (Fill_order \<lparr>pays = \<lparr>amount = 5, asset_id = 1\<rparr>, receives = \<lparr>amount = 7, asset_id = 2\<rparr>\<rparr>)
     [\<lparr>key = \<lparr>kbase = 1, kquote = 2, seconds = 60, kopen = 1500000000\<rparr>,
             high_base = 3, high_quote = 1, low_base = 1, low_quote = 1,
             open_base = 2, open_quote = 1, close_base = 1, close_quote = 1,
             base_volume = 6, quote_volume = 3\<rparr>]
   = Inr [\<lparr>key = \<lparr>kbase = 1, kquote = 2, seconds = 60, kopen = 1500000000\<rparr>,
             high_base = 3, high_quote = 1, low_base = 5, low_quote = 7,
             open_base = 2, open_quote = 1, close_base = 5, close_quote = 7,
             base_volume = 11, quote_volume = 10\<rparr>,
          \<lparr>key = \<lparr>kbase = 1, kquote = 2, seconds = 3600, kopen = 1499997600\<rparr>,
             high_base = 5, high_quote = 7, low_base = 5, low_quote = 7,
             open_base = 5, open_quote = 7, close_base = 5, close_quote = 7,
             base_volume = 5, quote_volume = 7\<rparr>] \<and>
   foldl (\<lambda>s d. record_trade (bucket_key_of \<lparr>pays = \<lparr>amount = 5, asset_id = 1\<rparr>, receives = \<lparr>amount = 7, asset_id = 2\<rparr>\<rparr> 1500000030 d)
                 (trade_of \<lparr>pays = \<lparr>amount = 5, asset_id = 1\<rparr>, receives = \<lparr>amount = 7, asset_id = 2\<rparr>\<rparr>) s)
     [\<lparr>key = \<lparr>kbase = 1, kquote = 2, seconds = 60, kopen = 1500000000\<rparr>,
             high_base = 3, high_quote = 1, low_base = 1, low_quote = 1,
             open_base = 2, open_quote = 1, close_base = 1, close_quote = 1,
             base_volume = 6, quote_volume = 3\<rparr>]
     (tracked_buckets \<lparr>tracked_buckets = [60, 3600], max_history = 0\<rparr>)
   = [\<lparr>key = \<lparr>kbase = 1, kquote = 2, seconds = 60, kopen = 1500000000\<rparr>,
             high_base = 3, high_quote = 1, low_base = 5, low_quote = 7,
             open_base = 2, open_quote = 1, close_base = 5, close_quote = 7,
             base_volume = 11, quote_volume = 10\<rparr>,
      \<lparr>key = \<lparr>kbase = 1, kquote = 2, seconds = 3600, kopen = 1499997600\<rparr>,
             high_base = 5, high_quote = 7, low_base = 5, low_quote = 7,
             open_base = 5, open_quote = 7, close_base = 5, close_quote = 7,
             base_volume = 5, quote_volume = 7\<rparr>]"
  using max_history_zero_skips_update [of
     "\<lparr>tracked_buckets = [60, 3600], max_history = 0\<rparr>"
     "\<lparr>timestamp = 1500000030, applied_operations =
        [Fill_order \<lparr>pays = \<lparr>amount = 5, asset_id = 1\<rparr>, receives = \<lparr>amount = 7, asset_id = 2\<rparr>\<rparr>]\<rparr>"
     "[\<lparr>key = \<lparr>kbase = 1, kquote = 2, seconds = 60, kopen = 1500000000\<rparr>,
             high_base = 3, high_quote = 1, low_base = 1, low_quote = 1,
             open_base = 2, open_quote = 1, close_base = 1, close_quote = 1,
             base_volume = 6, quote_volume = 3\<rparr>]"
     1500000030
     "Fill_order \<lparr>pays = \<lparr>amount = 5, asset_id = 1\<rparr>, receives = \<lparr>amount = 7, asset_id = 2\<rparr>\<rparr>"
     "[\<lparr>key = \<lparr>kbase = 1, kquote = 2, seconds = 60, kopen = 1500000000\<rparr>,
             high_base = 3, high_quote = 1, low_base = 5, low_quote = 7,
             open_base = 2, open_quote = 1, close_base = 5, close_quote = 7,
             base_volume = 11, quote_volume = 10\<rparr>,
       \<lparr>key = \<lparr>kbase = 1, kquote = 2, seconds = 3600, kopen = 1499997600\<rparr>,
             high_base = 5, high_quote = 7, low_base = 5, low_quote = 7,
             open_base = 5, open_quote = 7, close_base = 5, close_quote = 7,
             base_volume = 5, quote_volume = 7\<rparr>]"
     "\<lparr>pays = \<lparr>amount = 5, asset_id = 1\<rparr>, receives = \<lparr>amount = 7, asset_id = 2\<rparr>\<rparr>"]
  by (simp add: process_bucket_def Let_def bucket_open_def trade_of_def asset_div_def
      record_trade_def new_bucket_fresh cutoff_time_def key_less_def bucket_key_of_def
      update_bucket_def price_less_def price_greater_def high_def low_def)

section \<open>Volumes\<close>





end
